theory Spec2Isabelle
  imports Complex_Main "HOL-Library.AList"
begin

section \<open>The pursuit learner of \<open>adam/learner/pursuit.py\<close>\<close>

text \<open>
  A shallow embedding of \<open>PursuitLanguageLearner\<close>.

  \<^item> Python dictionaries are association lists in insertion order:
    \<open>d[k] = v\<close> is \<open>AList.update k v d\<close> (in place for a present key, appended for a
    new one), \<open>d.pop(k)\<close> is \<open>AList.delete k d\<close>, \<open>d.get(k)\<close> is \<open>map_of d k\<close>, and
    iteration follows the list.
  \<^item> A pattern object is a value of the type variable \<open>'p\<close>. HOL equality on \<open>'p\<close> is the
    equality Python uses for dictionary keys and set members of patterns; structural
    equality is the separate test \<open>check_isomorphism\<close>.
  \<^item> A Python float is the real number it stands for. Each float operation of the
    source returns the exact result of the operation rounded to a float; the rounding
    is the field \<open>round_float\<close> of the record \<open>engine\<close>, so what is proved of an
    operation holds whatever the rounding is. \<open>binary64\<close> below is the rounding of
    Python's floats (IEEE 754 double precision, round to nearest, ties to even); the
    identity is exact arithmetic. Infinities and NaN are not values of the model.
  \<^item> The pattern matching engine, the construction of perception graphs and the
    random generator are collaborators of the learner whose code is outside this
    file's source; their answers are the fields of the record \<open>engine\<close>, which every
    operation takes as its first argument. The static method
    \<open>get_objects_from_perception\<close> is a field of that record too: it walks the
    perception's networkx graph and tests the classes of its nodes, both outside the
    source, and the operations below use only the list of candidate objects it
    returns.
  \<^item> Every \<open>raise\<close> is a value \<open>Raises e\<close>. An operation returns its outcome together
    with the learner as the call leaves it, so that what was written before an
    exception stays written.
  \<^item> Logging is left out; the learner is the one built without
    \<open>log_word_hypotheses_to\<close> and without a graph logger.
\<close>

subsection \<open>Data\<close>

datatype error = RuntimeError | ValueError | IndexError | KeyError | ZeroDivisionError
  | AssertionError

datatype 'a result = Returns 'a | Raises error

datatype 'f frame = DevelopmentalPrimitivePerceptionFrame 'f | OtherPerceptionFrame

record ('p, 'g, 'f, 'r) engine =
  get_largest_matching_pattern :: "'p \<Rightarrow> 'g \<Rightarrow> 'p option"
  len_pattern :: "'p \<Rightarrow> nat"
  check_isomorphism :: "'p \<Rightarrow> 'p \<Rightarrow> bool"
  matcher_matches :: "'p \<Rightarrow> 'g \<Rightarrow> bool"
  from_graph :: "'g \<Rightarrow> 'p"
  get_objects_from_perception :: "'g \<Rightarrow> 'g list"
  graph_without_learner :: "'f \<Rightarrow> 'g"
  randbelow :: "'r \<Rightarrow> nat \<Rightarrow> nat \<times> 'r"
  round_float :: "real \<Rightarrow> real"

text \<open>
  \<open>len_pattern\<close> is \<open>len(pattern)\<close>, the number of nodes of the pattern's graph (also
  read for \<open>len(pattern.copy_as_digraph().nodes)\<close>). \<open>matcher_matches p g\<close> says
  whether \<open>p.matcher(g, matching_objects=True).matches(use_lookahead_pruning=True)\<close>
  yields a match. \<open>from_graph g\<close> is
  \<open>PerceptionGraphPattern.from_graph(g).perception_graph_pattern\<close>.
  \<open>graph_without_learner f\<close> is the perception graph of frame \<open>f\<close> with the learner
  removed. \<open>randbelow r n\<close> is the draw behind \<open>Random.choice\<close>: an index and the
  generator's next state. \<open>round_float x\<close> is the float that an arithmetic operation
  returns when its exact result is \<open>x\<close>.
\<close>

record 'p PartialMatch =
  matching_subgraph :: "'p option"
  num_nodes_matched :: nat
  num_nodes_in_pattern :: nat

record ('p, 'r) learner =
  words_to_hypotheses_and_scores :: "(string \<times> ('p \<times> real) list) list"
  lexicon :: "(string \<times> 'p) list"
  smoothing_parameter :: real
  rng :: 'r
  learning_factor :: real
  graph_match_confirmation_threshold :: real
  lexicon_entry_threshold :: real
  words_to_number_of_observations :: "(string \<times> int) list"
  debug_counter :: int
  observation_num :: int

definition new_learner :: "real \<Rightarrow> 'r \<Rightarrow> real \<Rightarrow> real \<Rightarrow> real \<Rightarrow> ('p, 'r) learner" where
  "new_learner smoothing r gamma confirmation entry =
     \<lparr>words_to_hypotheses_and_scores = [], lexicon = [], smoothing_parameter = smoothing,
      rng = r, learning_factor = gamma, graph_match_confirmation_threshold = confirmation,
      lexicon_entry_threshold = entry, words_to_number_of_observations = [],
      debug_counter = 0, observation_num = 0\<rparr>"

subsection \<open>Python helpers\<close>

text \<open>
  The truth value of a pattern in a condition: patterns are sized, so a pattern is
  false exactly when its length is zero; \<open>None\<close> is false.
\<close>

definition truthy :: "('p, 'g, 'f, 'r) engine \<Rightarrow> 'p option \<Rightarrow> bool" where
  "truthy E x = (case x of None \<Rightarrow> False | Some p \<Rightarrow> len_pattern E p \<noteq> 0)"

text \<open>\<open>max(xs, key=...)\<close> on entries scored by their second component: the first
  entry of maximal score.\<close>

fun max_by_score :: "('a \<times> real) \<Rightarrow> ('a \<times> real) list \<Rightarrow> ('a \<times> real)" where
  "max_by_score best [] = best"
| "max_by_score best (e # es) = max_by_score (if snd best < snd e then e else best) es"

text \<open>The entry of maximal score of a dictionary of scores, \<open>None\<close> for an empty
  one: \<open>max(d.items(), key=lambda entry: entry[1])\<close>, and the key
  \<open>max(d, key=lambda key: d[key])\<close> with its value \<open>d[key]\<close>.\<close>

definition leading_entry :: "('a \<times> real) list \<Rightarrow> ('a \<times> real) option" where
  "leading_entry d = (case d of [] \<Rightarrow> None | e # es \<Rightarrow> Some (max_by_score e es))"

text \<open>\<open>Random.choice\<close>: \<open>IndexError\<close> on an empty sequence, otherwise \<open>seq[i]\<close> for
  the index drawn.\<close>

definition choice :: "('p, 'g, 'f, 'r) engine \<Rightarrow> 'r \<Rightarrow> 'a list \<Rightarrow> 'a result \<times> 'r" where
  "choice E r seq =
     (if seq = [] then (Raises IndexError, r)
      else case randbelow E r (length seq) of
             (i, r') \<Rightarrow> (if i < length seq then (Returns (seq ! i), r')
                         else (Raises IndexError, r')))"

subsection \<open>Partial matches\<close>

definition matched_exactly :: "'p PartialMatch \<Rightarrow> bool" where
  "matched_exactly pm = (num_nodes_matched pm = num_nodes_in_pattern pm)"

definition match_ratio :: "('p, 'g, 'f, 'r) engine \<Rightarrow> 'p PartialMatch \<Rightarrow> real result" where
  "match_ratio E pm =
     (if num_nodes_in_pattern pm = 0 then Raises ZeroDivisionError
      else Returns (round_float E
                      (real (num_nodes_matched pm) / real (num_nodes_in_pattern pm))))"

definition compute_match_ratio ::
  "('p, 'g, 'f, 'r) engine \<Rightarrow> 'p \<Rightarrow> 'g \<Rightarrow> 'p PartialMatch" where
  "compute_match_ratio E pattern graph =
     (let hypothesis_pattern_common_subgraph = get_largest_matching_pattern E pattern graph
      in \<lparr>matching_subgraph = hypothesis_pattern_common_subgraph,
          num_nodes_matched =
            (if truthy E hypothesis_pattern_common_subgraph
             then len_pattern E (the hypothesis_pattern_common_subgraph) else 0),
          num_nodes_in_pattern = len_pattern E pattern\<rparr>)"

text \<open>Each call of \<open>_compute_match_ratio\<close> also adds one to \<open>debug_counter\<close>; the
  callers below account for it.\<close>

subsection \<open>Scores\<close>

text \<open>The reinforcement \<open>score + learning_factor * (1 - score)\<close> and the penalty
  \<open>score * (1.0 - learning_factor)\<close>, each operation rounded.\<close>

definition reinforce :: "('p, 'g, 'f, 'r) engine \<Rightarrow> real \<Rightarrow> real \<Rightarrow> real" where
  "reinforce E gamma score =
     round_float E (score + round_float E (gamma * round_float E (1 - score)))"

definition penalize :: "('p, 'g, 'f, 'r) engine \<Rightarrow> real \<Rightarrow> real \<Rightarrow> real" where
  "penalize E gamma score = round_float E (score * round_float E (1 - gamma))"

definition score_or_zero :: "('p \<times> real) list \<Rightarrow> 'p \<Rightarrow> real" where
  "score_or_zero hyps h = (case map_of hyps h of None \<Rightarrow> 0 | Some s \<Rightarrow> s)"

subsection \<open>\<open>initialization_step\<close>\<close>

text \<open>The scores \<open>s\<close> of the comprehension
  \<open>[s for w, h_to_s in ....items() for h, s in h_to_s.items() if h.check_isomorphism(meaning)]\<close>,
  in its order.\<close>

definition association_scores ::
  "('p, 'g, 'f, 'r) engine \<Rightarrow> (string \<times> ('p \<times> real) list) list \<Rightarrow> 'p \<Rightarrow> real list" where
  "association_scores E table meaning =
     concat (map (\<lambda>(w, h_to_s).
        map snd (filter (\<lambda>(h, s). check_isomorphism E h meaning) h_to_s)) table)"

text \<open>\<open>max(scores + [0])\<close>. The list has its last element \<open>0\<close> at least, so \<open>max\<close>
  never raises and the first case below does not occur.\<close>

definition max_association_score ::
  "('p, 'g, 'f, 'r) engine \<Rightarrow> (string \<times> ('p \<times> real) list) list \<Rightarrow> 'p \<Rightarrow> real" where
  "max_association_score E table meaning =
     (case association_scores E table meaning @ [0] of
        [] \<Rightarrow> 0
      | x # xs \<Rightarrow> fold max xs x)"

text \<open>The loop over \<open>meanings\<close>. \<open>min_score\<close> starts as \<open>float("inf")\<close>, here
  \<open>None\<close>; every real score is below it.\<close>

fun least_associated ::
  "('p, 'g, 'f, 'r) engine \<Rightarrow> (string \<times> ('p \<times> real) list) list \<Rightarrow> 'p list
     \<Rightarrow> 'p \<times> real option \<Rightarrow> 'p \<times> real option" where
  "least_associated E table [] (pattern_hypothesis, min_score) =
     (pattern_hypothesis, min_score)"
| "least_associated E table (meaning # meanings) (pattern_hypothesis, min_score) =
     (let max_association = max_association_score E table meaning
      in if (case min_score of None \<Rightarrow> True | Some m \<Rightarrow> max_association < m)
         then least_associated E table meanings (meaning, Some max_association)
         else least_associated E table meanings (pattern_hypothesis, min_score))"

definition initialization_step ::
  "('p, 'g, 'f, 'r) engine \<Rightarrow> string \<Rightarrow> 'g \<Rightarrow> ('p, 'r) learner
     \<Rightarrow> unit result \<times> ('p, 'r) learner" where
  "initialization_step E word observed_perception_graph L =
     (let meanings = map (from_graph E)
                         (get_objects_from_perception E observed_perception_graph)
      in case meanings of
           [] \<Rightarrow> (Raises ValueError, L)
         | first_meaning # _ \<Rightarrow>
             (let pattern_hypothesis =
                    fst (least_associated E (words_to_hypotheses_and_scores L) meanings
                           (first_meaning, None))
              in (Returns (),
                  L\<lparr>words_to_hypotheses_and_scores :=
                      AList.update word [(pattern_hypothesis, learning_factor L)]
                        (words_to_hypotheses_and_scores L)\<rparr>)))"

subsection \<open>\<open>learning_step\<close>\<close>

fun find_identical_hypothesis ::
  "('p, 'g, 'f, 'r) engine \<Rightarrow> 'p \<Rightarrow> 'p list \<Rightarrow> 'p option" where
  "find_identical_hypothesis E new_hypothesis [] = None"
| "find_identical_hypothesis E new_hypothesis (candidate # candidates) =
     (if check_isomorphism E new_hypothesis candidate then Some candidate
      else find_identical_hypothesis E new_hypothesis candidates)"

text \<open>Lines 341 to 353: the object that stands for \<open>hypothesis_to_reward\<close>.\<close>

definition hypothesis_object_to_reward ::
  "('p, 'g, 'f, 'r) engine \<Rightarrow> 'p \<Rightarrow> ('p \<times> real) list \<Rightarrow> 'p" where
  "hypothesis_object_to_reward E hypothesis_to_reward hypotheses_for_word =
     (if hypothesis_to_reward \<in> set (map fst hypotheses_for_word) then hypothesis_to_reward
      else let existing = find_identical_hypothesis E hypothesis_to_reward
                            (map fst hypotheses_for_word)
           in if truthy E existing then the existing else hypothesis_to_reward)"

text \<open>Lines 335 to 368: the loop over \<open>hypotheses_to_reward\<close>, on the word's
  hypotheses and the set \<open>hypothesis_objects_boosted_on_this_update\<close>.\<close>

fun reward_hypotheses ::
  "('p, 'g, 'f, 'r) engine \<Rightarrow> real \<Rightarrow> 'p list \<Rightarrow> ('p \<times> real) list \<times> 'p set
     \<Rightarrow> ('p \<times> real) list \<times> 'p set" where
  "reward_hypotheses E gamma [] (hyps, boosted) = (hyps, boosted)"
| "reward_hypotheses E gamma (h # rest) (hyps, boosted) =
     (let obj = hypothesis_object_to_reward E h hyps
      in if obj \<notin> boosted
         then reward_hypotheses E gamma rest
                (AList.update obj (reinforce E gamma (score_or_zero hyps obj)) hyps,
                 insert obj boosted)
         else reward_hypotheses E gamma rest (hyps, boosted))"

text \<open>Lines 318 to 332: the hypotheses whose match ratio against the chosen object is
  above the threshold, in the dictionary's order, and the number of calls of
  \<open>_compute_match_ratio\<close> made. A zero-length hypothesis stops the loop with
  \<open>ZeroDivisionError\<close>.\<close>

fun hypotheses_matching_object ::
  "('p, 'g, 'f, 'r) engine \<Rightarrow> real \<Rightarrow> 'g \<Rightarrow> 'p list \<Rightarrow> 'p list result \<times> int" where
  "hypotheses_matching_object E threshold chosen_object [] = (Returns [], 0)"
| "hypotheses_matching_object E threshold chosen_object (hypothesis # rest) =
     (case match_ratio E (compute_match_ratio E hypothesis chosen_object) of
        Raises e \<Rightarrow> (Raises e, 1)
      | Returns ratio \<Rightarrow>
          (case hypotheses_matching_object E threshold chosen_object rest of
             (Raises e, n) \<Rightarrow> (Raises e, n + 1)
           | (Returns hs, n) \<Rightarrow>
               (Returns (if ratio > threshold then hypothesis # hs else hs), n + 1)))"

text \<open>Lines 287 to 332: the list \<open>hypotheses_to_reward\<close>, the generator after it and
  the number of calls of \<open>_compute_match_ratio\<close> made.\<close>

definition hypotheses_to_reward ::
  "('p, 'g, 'f, 'r) engine \<Rightarrow> real \<Rightarrow> 'g \<Rightarrow> 'p PartialMatch \<Rightarrow> ('p \<times> real) list \<Rightarrow> 'r
     \<Rightarrow> 'p list result \<times> 'r \<times> int" where
  "hypotheses_to_reward E threshold observed_perception_graph partial_match
       hypotheses_for_word r =
     (case match_ratio E partial_match of
        Raises e \<Rightarrow> (Raises e, r, 0)
      | Returns ratio \<Rightarrow>
          if ratio \<ge> threshold \<and> truthy E (matching_subgraph partial_match)
          then (Returns [the (matching_subgraph partial_match)], r, 0)
          else (case choice E r (get_objects_from_perception E observed_perception_graph) of
                  (Raises e, r') \<Rightarrow> (Raises e, r', 0)
                | (Returns chosen_object, r') \<Rightarrow>
                    (case hypotheses_matching_object E threshold chosen_object
                            (map fst hypotheses_for_word) of
                       (Raises e, n) \<Rightarrow> (Raises e, r', n)
                     | (Returns hs, n) \<Rightarrow>
                         (Returns (from_graph E chosen_object # hs), r', n))))"

text \<open>The word's inner dictionary is one object, changed in place; here each change
  is written back under the word, which keeps its place in the outer dictionary.\<close>

definition set_hypotheses ::
  "string \<Rightarrow> ('p \<times> real) list \<Rightarrow> ('p, 'r) learner \<Rightarrow> ('p, 'r) learner" where
  "set_hypotheses word hyps L =
     L\<lparr>words_to_hypotheses_and_scores :=
         AList.update word hyps (words_to_hypotheses_and_scores L)\<rparr>"

definition learning_step ::
  "('p, 'g, 'f, 'r) engine \<Rightarrow> string \<Rightarrow> 'g \<Rightarrow> ('p, 'r) learner
     \<Rightarrow> bool result \<times> ('p, 'r) learner" where
  "learning_step E word observed_perception_graph L =
     (case map_of (words_to_hypotheses_and_scores L) word of
        None \<Rightarrow> (Raises KeyError, L)
      | Some hypotheses_for_word \<Rightarrow>
          (case leading_entry hypotheses_for_word of
             None \<Rightarrow> (Raises ValueError, L)
           | Some (leading_hypothesis_pattern, current_hypothesis_score) \<Rightarrow>
               (let partial_match = compute_match_ratio E leading_hypothesis_pattern
                                      observed_perception_graph;
                    L1 = L\<lparr>debug_counter := debug_counter L + 2\<rparr>;
                    hypothesis_is_confirmed = matched_exactly partial_match
                in if hypothesis_is_confirmed \<and> truthy E (matching_subgraph partial_match)
                   then (Returns hypothesis_is_confirmed,
                         set_hypotheses word
                           (AList.update leading_hypothesis_pattern
                              (reinforce E (learning_factor L) current_hypothesis_score)
                              hypotheses_for_word) L1)
                   else
                    (let penalized = AList.update leading_hypothesis_pattern
                                       (penalize E (learning_factor L)
                                          current_hypothesis_score)
                                       hypotheses_for_word
                     in case hypotheses_to_reward E (graph_match_confirmation_threshold L)
                               observed_perception_graph partial_match penalized (rng L) of
                          (Raises err, r, n) \<Rightarrow>
                            (Raises err,
                             set_hypotheses word penalized
                               (L1\<lparr>rng := r, debug_counter := debug_counter L1 + n\<rparr>))
                        | (Returns to_reward, r, n) \<Rightarrow>
                            (Returns hypothesis_is_confirmed,
                             set_hypotheses word
                               (fst (reward_hypotheses E (learning_factor L) to_reward
                                       (penalized, {})))
                               (L1\<lparr>rng := r, debug_counter := debug_counter L1 + n\<rparr>))))))"

subsection \<open>\<open>lexicon_step\<close>\<close>

definition leading_hypothesis_for :: "('p, 'r) learner \<Rightarrow> string \<Rightarrow> ('p \<times> real) option" where
  "leading_hypothesis_for L word =
     (case map_of (words_to_hypotheses_and_scores L) word of
        None \<Rightarrow> None
      | Some hypotheses_and_scores_for_word \<Rightarrow>
          leading_entry hypotheses_and_scores_for_word)"

text \<open>\<open>sum(values)\<close>: the additions of a left-to-right loop that starts at \<open>0\<close>.\<close>

definition float_sum :: "('p, 'g, 'f, 'r) engine \<Rightarrow> real list \<Rightarrow> real" where
  "float_sum E xs = foldl (\<lambda>total x. round_float E (total + x)) 0 xs"

text \<open>The divisor \<open>sum_of_all_scores + number_of_meanings * smoothing\<close> and the
  quotient \<open>(leading_hypothesis_score + smoothing) / divisor\<close>.\<close>

definition smoothed_total :: "('p, 'g, 'f, 'r) engine \<Rightarrow> real \<Rightarrow> ('p \<times> real) list \<Rightarrow> real" where
  "smoothed_total E smoothing all_hypotheses_for_word =
     round_float E
       (float_sum E (map snd all_hypotheses_for_word)
          + round_float E (real (length all_hypotheses_for_word) * smoothing))"

definition probability_of_meaning_given_word ::
  "('p, 'g, 'f, 'r) engine \<Rightarrow> real \<Rightarrow> real \<Rightarrow> ('p \<times> real) list \<Rightarrow> real" where
  "probability_of_meaning_given_word E smoothing leading_hypothesis_score
       all_hypotheses_for_word =
     round_float E
       (round_float E (leading_hypothesis_score + smoothing)
          / smoothed_total E smoothing all_hypotheses_for_word)"

definition lexicon_step ::
  "('p, 'g, 'f, 'r) engine \<Rightarrow> string \<Rightarrow> ('p, 'r) learner \<Rightarrow> unit result \<times> ('p, 'r) learner" where
  "lexicon_step E word L =
     (case leading_hypothesis_for L word of
        None \<Rightarrow> (Raises AssertionError, L)
      | Some (leading_hypothesis_pattern, leading_hypothesis_score) \<Rightarrow>
          (case map_of (words_to_hypotheses_and_scores L) word of
             None \<Rightarrow> (Raises KeyError, L)
           | Some all_hypotheses_for_word \<Rightarrow>
               if smoothed_total E (smoothing_parameter L) all_hypotheses_for_word = 0
               then (Raises ZeroDivisionError, L)
               else
                 (case map_of (words_to_number_of_observations L) word of
                    None \<Rightarrow> (Raises KeyError, L)
                  | Some times_word_has_been_seen \<Rightarrow>
                      if probability_of_meaning_given_word E (smoothing_parameter L)
                           leading_hypothesis_score all_hypotheses_for_word
                         > lexicon_entry_threshold L
                      then if times_word_has_been_seen > 5
                           then (Returns (),
                                 L\<lparr>words_to_hypotheses_and_scores :=
                                     AList.delete word (words_to_hypotheses_and_scores L),
                                   lexicon :=
                                     AList.update word leading_hypothesis_pattern (lexicon L)\<rparr>)
                           else (Returns (), L)
                      else (Returns (), L))))"

subsection \<open>\<open>learn_with_pursuit\<close> and \<open>observe\<close>\<close>

definition count_observation :: "string \<Rightarrow> ('p, 'r) learner \<Rightarrow> ('p, 'r) learner" where
  "count_observation word L =
     L\<lparr>words_to_number_of_observations :=
         (case map_of (words_to_number_of_observations L) word of
            Some n \<Rightarrow> AList.update word (n + 1) (words_to_number_of_observations L)
          | None \<Rightarrow> AList.update word 1 (words_to_number_of_observations L))\<rparr>"

text \<open>What one word of the description does (the body of the \<open>for\<close> loop).\<close>

definition learn_word ::
  "('p, 'g, 'f, 'r) engine \<Rightarrow> 'g \<Rightarrow> string \<Rightarrow> ('p, 'r) learner
     \<Rightarrow> unit result \<times> ('p, 'r) learner" where
  "learn_word E observed_perception_graph word L =
     (if word = ''a'' \<or> word = ''the'' then (Returns (), L)
      else
        (let L1 = count_observation word L
         in if word \<notin> set (map fst (lexicon L1))
            then if word \<notin> set (map fst (words_to_hypotheses_and_scores L1))
                 then initialization_step E word observed_perception_graph L1
                 else (case learning_step E word observed_perception_graph L1 of
                         (Raises e, L2) \<Rightarrow> (Raises e, L2)
                       | (Returns is_hypothesis_confirmed, L2) \<Rightarrow>
                           if is_hypothesis_confirmed then lexicon_step E word L2
                           else (Returns (), L2))
            else (Returns (), L1)))"

fun learn_with_pursuit ::
  "('p, 'g, 'f, 'r) engine \<Rightarrow> 'g \<Rightarrow> string list \<Rightarrow> ('p, 'r) learner
     \<Rightarrow> unit result \<times> ('p, 'r) learner" where
  "learn_with_pursuit E observed_perception_graph [] L = (Returns (), L)"
| "learn_with_pursuit E observed_perception_graph (word # description) L =
     (case learn_word E observed_perception_graph word L of
        (Raises e, L') \<Rightarrow> (Raises e, L')
      | (Returns u, L') \<Rightarrow> learn_with_pursuit E observed_perception_graph description L')"

text \<open>A learning example is the frames of its perception and the token sequence of
  its linguistic description.\<close>

definition observe ::
  "('p, 'g, 'f, 'r) engine \<Rightarrow> 'f frame list \<times> string list \<Rightarrow> ('p, 'r) learner
     \<Rightarrow> unit result \<times> ('p, 'r) learner" where
  "observe E learning_example L =
     (let L1 = L\<lparr>observation_num := observation_num L + 1\<rparr>
      in case fst learning_example of
           [DevelopmentalPrimitivePerceptionFrame f] \<Rightarrow>
             learn_with_pursuit E (graph_without_learner E f) (snd learning_example) L1
         | _ \<Rightarrow> (Raises RuntimeError, L1))"

text \<open>A run: the learner after a sequence of \<open>observe\<close> calls, whether or not some of
  them raised.\<close>

fun observe_all ::
  "('p, 'g, 'f, 'r) engine \<Rightarrow> ('f frame list \<times> string list) list \<Rightarrow> ('p, 'r) learner
     \<Rightarrow> ('p, 'r) learner" where
  "observe_all E [] L = L"
| "observe_all E (learning_example # rest) L =
     observe_all E rest (snd (observe E learning_example L))"

subsection \<open>\<open>describe\<close>\<close>

text \<open>The list \<open>descriptions\<close>: first the lexicalized words that match, and only when
  that leaves it empty the words of the hypothesis table whose leading hypothesis
  matches. A description is the token sequence \<open>("a", word)\<close>.\<close>

definition lexicon_descriptions ::
  "('p, 'g, 'f, 'r) engine \<Rightarrow> 'g \<Rightarrow> ('p, 'r) learner \<Rightarrow> (string list \<times> real) list" where
  "lexicon_descriptions E graph L =
     map (\<lambda>(word, meaning_pattern). ([''a'', word], 1))
       (filter (\<lambda>(word, meaning_pattern). matcher_matches E meaning_pattern graph)
          (lexicon L))"

definition hypothesis_descriptions ::
  "('p, 'g, 'f, 'r) engine \<Rightarrow> 'g \<Rightarrow> ('p, 'r) learner \<Rightarrow> (string list \<times> real) list" where
  "hypothesis_descriptions E graph L =
     concat (map (\<lambda>word.
        case leading_hypothesis_for L word of
          None \<Rightarrow> []
        | Some (leading_hypothesis, score) \<Rightarrow>
            if matcher_matches E leading_hypothesis graph then [([''a'', word], score)]
            else [])
       (map fst (words_to_hypotheses_and_scores L)))"

text \<open>\<open>immutabledict(descriptions)\<close>: a later pair replaces an earlier one of the same
  key.\<close>

definition immutabledict :: "('k \<times> 'v) list \<Rightarrow> ('k \<rightharpoonup> 'v)" where
  "immutabledict pairs = map_of (rev pairs)"

definition describe ::
  "('p, 'g, 'f, 'r) engine \<Rightarrow> 'f frame list \<Rightarrow> ('p, 'r) learner
     \<Rightarrow> (string list \<rightharpoonup> real) result" where
  "describe E frames L =
     (case frames of
        [DevelopmentalPrimitivePerceptionFrame f] \<Rightarrow>
          (let observed_perception_graph = graph_without_learner E f;
               descriptions = lexicon_descriptions E observed_perception_graph L
           in Returns (immutabledict
                (if descriptions = []
                 then hypothesis_descriptions E observed_perception_graph L
                 else descriptions)))
      | _ \<Rightarrow> Raises RuntimeError)"

subsection \<open>Structural duplicates\<close>

text \<open>No two different keys of a hypothesis dictionary are isomorphic.\<close>

definition no_isomorphic_pair :: "('p, 'g, 'f, 'r) engine \<Rightarrow> 'p list \<Rightarrow> bool" where
  "no_isomorphic_pair E keys =
     (\<forall>a \<in> set keys. \<forall>b \<in> set keys. a \<noteq> b \<longrightarrow> \<not> check_isomorphism E a b)"

subsection \<open>Invariants of a run\<close>

text \<open>No word is a key of both the hypothesis table and the lexicon; and every
  lexicalized word has an observation count above 5.\<close>

definition disjoint_tables :: "('p, 'r) learner \<Rightarrow> bool" where
  "disjoint_tables L =
     (fst ` set (words_to_hypotheses_and_scores L) \<inter> fst ` set (lexicon L) = {})"

definition lexicalized_after_six :: "('p, 'r) learner \<Rightarrow> bool" where
  "lexicalized_after_six L =
     (\<forall>w \<in> fst ` set (lexicon L).
        \<exists>n. map_of (words_to_number_of_observations L) w = Some n \<and> 5 < n)"

subsection \<open>Python floats\<close>

text \<open>
  The rounding of Python's floats: IEEE 754 double precision, round to nearest, ties
  to even. \<open>binade n x\<close> is the exponent \<open>e\<close> with \<open>2 ^ e \<le> x < 2 ^ (e + 1)\<close> of a
  positive \<open>x\<close>, found in at most \<open>n\<close> halvings or doublings; \<open>binary64 x\<close> rounds \<open>x\<close>
  to a multiple of the spacing of the floats at \<open>x\<close>, which is \<open>2 ^ (e - 52)\<close> and
  \<open>2 ^ (- 1074)\<close> below the normal range. Overflow to infinity is left out: no score,
  ratio or probability of the learner comes near \<open>2 ^ 1024\<close>.
\<close>

definition round_half_even :: "real \<Rightarrow> int" where
  "round_half_even y =
     (if y - of_int \<lfloor>y\<rfloor> < 1 / 2 then \<lfloor>y\<rfloor>
      else if 1 / 2 < y - of_int \<lfloor>y\<rfloor> then \<lfloor>y\<rfloor> + 1
      else if even \<lfloor>y\<rfloor> then \<lfloor>y\<rfloor> else \<lfloor>y\<rfloor> + 1)"

fun binade :: "nat \<Rightarrow> real \<Rightarrow> int" where
  "binade 0 x = 0"
| "binade (Suc n) x =
     (if 2 \<le> x then binade n (x / 2) + 1
      else if x < 1 then binade n (x * 2) - 1
      else 0)"

definition pow2 :: "int \<Rightarrow> real" where
  "pow2 e = (if 0 \<le> e then 2 ^ nat e else 1 / 2 ^ nat (- e))"

definition binary64 :: "real \<Rightarrow> real" where
  "binary64 x =
     (if x = 0 then 0
      else let a = \<bar>x\<bar>;
               e = max (binade 1100 a) (- 1022);
               ulp = pow2 (e - 52)
           in sgn x * (ulp * of_int (round_half_even (a / ulp))))"

subsection \<open>Example engines and learners\<close>

text \<open>
  Small engines on which the operations can be run. A graph and a pattern are lists
  of node labels, two patterns are isomorphic when they have the same nodes, a
  pattern matches a graph that has all its nodes, the largest matching pattern keeps
  the pattern's nodes that occur in the graph, and the generator is a counter whose
  draw is its value modulo the bound.

  \<open>node_engine\<close>: every node of a scene is a candidate object; arithmetic is exact.
  \<open>float_engine\<close>: the same with the arithmetic of Python's floats.
  \<open>ground_engine\<close>: node \<open>0\<close> is the ground, which is no candidate object
  (\<open>node.debug_handle != "the ground"\<close> in \<open>get_objects_from_perception\<close>).
\<close>

definition node_engine :: "(nat list, nat list, nat list, nat) engine" where
  "node_engine =
     \<lparr>get_largest_matching_pattern =
        (\<lambda>p g. if filter (\<lambda>x. x \<in> set g) p = [] then None
               else Some (filter (\<lambda>x. x \<in> set g) p)),
      len_pattern = length,
      check_isomorphism = (\<lambda>a b. set a = set b),
      matcher_matches = (\<lambda>p g. set p \<subseteq> set g),
      from_graph = (\<lambda>g. g),
      get_objects_from_perception = map (\<lambda>x. [x]),
      graph_without_learner = (\<lambda>f. f),
      randbelow = (\<lambda>r n. (r mod n, Suc r)),
      round_float = (\<lambda>x. x)\<rparr>"

definition float_engine :: "(nat list, nat list, nat list, nat) engine" where
  "float_engine = node_engine\<lparr>round_float := binary64\<rparr>"

definition ground_engine :: "(nat list, nat list, nat list, nat) engine" where
  "ground_engine =
     node_engine\<lparr>get_objects_from_perception :=
                   (\<lambda>g. map (\<lambda>x. [x]) (filter (\<lambda>x. x \<noteq> 0) g))\<rparr>"

text \<open>A learner with the parameters of the repository's test: learning factor
  \<open>0.5\<close>, both thresholds \<open>0.7\<close>, smoothing \<open>0.001\<close>.\<close>

definition test_learner :: "(nat list, nat) learner" where
  "test_learner = new_learner (1 / 1000) 0 (1 / 2) (7 / 10) (7 / 10)"

text \<open>Learners in the middle of a run, with one and with three hypotheses for the
  word \<open>ball\<close>.\<close>

definition ball_learner :: "(nat list, nat) learner" where
  "ball_learner =
     test_learner\<lparr>words_to_hypotheses_and_scores := [(''ball'', [([1, 2], 1 / 2)])],
                  words_to_number_of_observations := [(''ball'', 1)]\<rparr>"

definition three_hypotheses_learner :: "(nat list, nat) learner" where
  "three_hypotheses_learner =
     test_learner\<lparr>words_to_hypotheses_and_scores :=
                    [(''ball'', [([1, 2, 3, 4], 1 / 2), ([3, 2, 1], 1 / 4), ([5], 1 / 4)])],
                  words_to_number_of_observations := [(''ball'', 3)]\<rparr>"

text \<open>A learner that has seen \<open>ball\<close> six times.\<close>

definition seen_learner :: "(nat list, nat) learner" where
  "seen_learner =
     test_learner\<lparr>words_to_hypotheses_and_scores := [(''ball'', [([1, 2], 31 / 32)])],
                  words_to_number_of_observations := [(''ball'', 6)]\<rparr>"

text \<open>A learner that has lexicalized \<open>ball\<close> and holds two hypotheses for each of
  \<open>box\<close>, whose second hypothesis leads, and \<open>cup\<close>, whose hypotheses have the same
  score.\<close>

definition lexicalized_learner :: "(nat list, nat) learner" where
  "lexicalized_learner =
     test_learner\<lparr>words_to_hypotheses_and_scores :=
                    [(''box'', [([3], 1 / 4), ([3, 4], 1 / 2)]),
                     (''cup'', [([7], 1 / 2), ([8], 1 / 2)])],
                  lexicon := [(''ball'', [1, 2])],
                  words_to_number_of_observations :=
                    [(''ball'', 6), (''box'', 2), (''cup'', 2)]\<rparr>"

text \<open>A learner with learning factor \<open>0.25\<close> whose leading hypothesis for \<open>ball\<close> is
  the second entry of the word's dictionary.\<close>

definition quarter_learner :: "(nat list, nat) learner" where
  "quarter_learner =
     (new_learner (1 / 1000) 0 (1 / 4) (7 / 10) (7 / 10))
       \<lparr>words_to_hypotheses_and_scores := [(''ball'', [([3], 1 / 4), ([1, 2], 1 / 2)])],
        words_to_number_of_observations := [(''ball'', 2)]\<rparr>"

section \<open>Properties\<close>

subsection \<open>The reward loop\<close>

lemma score_or_zero_cong:
  "map_of hyps h = map_of base h \<Longrightarrow> score_or_zero hyps h = score_or_zero base h"
  by (simp add: score_or_zero_def)

lemma reward_hypotheses_once:
  assumes "\<forall>h. (h \<in> boosted \<longrightarrow> map_of hyps h = Some (reinforce E g (score_or_zero base h)))
              \<and> (h \<notin> boosted \<longrightarrow> map_of hyps h = map_of base h)"
  shows "\<forall>h. (h \<in> snd (reward_hypotheses E g hs (hyps, boosted))
                \<longrightarrow> map_of (fst (reward_hypotheses E g hs (hyps, boosted))) h
                      = Some (reinforce E g (score_or_zero base h)))
            \<and> (h \<notin> snd (reward_hypotheses E g hs (hyps, boosted))
                \<longrightarrow> map_of (fst (reward_hypotheses E g hs (hyps, boosted))) h = map_of base h)"
  using assms
proof (induction hs arbitrary: hyps boosted)
  case Nil
  then show ?case by simp
next
  case (Cons x hs)
  let ?obj = "hypothesis_object_to_reward E x hyps"
  show ?case
  proof (cases "?obj \<in> boosted")
    case True
    then have "reward_hypotheses E g (x # hs) (hyps, boosted)
               = reward_hypotheses E g hs (hyps, boosted)"
      by simp
    then show ?thesis using Cons.IH [OF Cons.prems] by simp
  next
    case False
    let ?hyps' = "AList.update ?obj (reinforce E g (score_or_zero hyps ?obj)) hyps"
    have eq: "reward_hypotheses E g (x # hs) (hyps, boosted)
              = reward_hypotheses E g hs (?hyps', insert ?obj boosted)"
      using False by (simp add: Let_def)
    have "map_of hyps ?obj = map_of base ?obj" using Cons.prems False by blast
    then have sc: "score_or_zero hyps ?obj = score_or_zero base ?obj"
      by (rule score_or_zero_cong)
    have inv: "\<forall>h. (h \<in> insert ?obj boosted
                      \<longrightarrow> map_of ?hyps' h = Some (reinforce E g (score_or_zero base h)))
                  \<and> (h \<notin> insert ?obj boosted \<longrightarrow> map_of ?hyps' h = map_of base h)"
      using Cons.prems sc by (auto simp: update_conv')
    show ?thesis unfolding eq using Cons.IH [OF inv] .
  qed
qed

lemma reward_hypotheses_keys_mono:
  "set (map fst hyps) \<subseteq> set (map fst (fst (reward_hypotheses E g hs (hyps, boosted))))"
proof (induction hs arbitrary: hyps boosted)
  case Nil
  then show ?case by simp
next
  case (Cons x hs)
  let ?obj = "hypothesis_object_to_reward E x hyps"
  let ?hyps' = "AList.update ?obj (reinforce E g (score_or_zero hyps ?obj)) hyps"
  have "set (map fst hyps) \<subseteq> set (map fst ?hyps')"
    by (auto simp: update_keys)
  also have "\<dots> \<subseteq> set (map fst (fst (reward_hypotheses E g hs (?hyps', insert ?obj boosted))))"
    by (rule Cons.IH)
  finally show ?case using Cons.IH [of hyps boosted] by (simp add: Let_def)
qed

lemma hypothesis_object_of_key:
  "h \<in> set (map fst hyps) \<Longrightarrow> hypothesis_object_to_reward E h hyps = h"
  by (simp add: hypothesis_object_to_reward_def)

lemma reward_hypotheses_keys_same:
  "set hs \<subseteq> set (map fst hyps) \<Longrightarrow>
     map fst (fst (reward_hypotheses E g hs (hyps, boosted))) = map fst hyps"
proof (induction hs arbitrary: hyps boosted)
  case Nil
  then show ?case by simp
next
  case (Cons x hs)
  have x: "x \<in> set (map fst hyps)" and hs: "set hs \<subseteq> set (map fst hyps)"
    using Cons.prems by simp_all
  have obj: "hypothesis_object_to_reward E x hyps = x"
    using x by (rule hypothesis_object_of_key)
  let ?hyps' = "AList.update x (reinforce E g (score_or_zero hyps x)) hyps"
  have keys: "map fst ?hyps' = map fst hyps" using x by (simp add: update_keys)
  have "map fst (fst (reward_hypotheses E g hs (?hyps', insert x boosted))) = map fst ?hyps'"
    using hs keys by (intro Cons.IH) simp
  then show ?case using Cons.IH [OF hs, of boosted] obj keys by (simp add: Let_def)
qed

lemma find_identical_hypothesis_None:
  "find_identical_hypothesis E n cs = None \<longleftrightarrow> (\<forall>c \<in> set cs. \<not> check_isomorphism E n c)"
  by (induction cs) auto

lemma find_identical_hypothesis_Some:
  "find_identical_hypothesis E n cs = Some c \<Longrightarrow> c \<in> set cs \<and> check_isomorphism E n c"
  by (induction cs) (auto split: if_splits)

text \<open>The object rewarded for a hypothesis is a stored key, or the hypothesis itself
  when no stored key of non-zero length is found isomorphic to it.\<close>

lemma hypothesis_object_cases:
  assumes "\<forall>k \<in> set (map fst hyps). len_pattern E k \<noteq> 0"
  shows "hypothesis_object_to_reward E h hyps \<in> set (map fst hyps)
         \<or> (hypothesis_object_to_reward E h hyps = h
            \<and> (\<forall>c \<in> set (map fst hyps). \<not> check_isomorphism E h c))"
proof (cases "h \<in> set (map fst hyps)")
  case True
  then show ?thesis by (simp add: hypothesis_object_to_reward_def)
next
  case False
  show ?thesis
  proof (cases "find_identical_hypothesis E h (map fst hyps)")
    case None
    then have "\<forall>c \<in> set (map fst hyps). \<not> check_isomorphism E h c"
      by (simp only: find_identical_hypothesis_None)
    moreover have "hypothesis_object_to_reward E h hyps = h"
      using False None by (simp add: hypothesis_object_to_reward_def truthy_def)
    ultimately show ?thesis by simp
  next
    case (Some c)
    then have c: "c \<in> set (map fst hyps)"
      using find_identical_hypothesis_Some by fastforce
    then have "len_pattern E c \<noteq> 0" using assms by blast
    then show ?thesis
      using False Some c by (simp add: hypothesis_object_to_reward_def truthy_def)
  qed
qed

lemma no_isomorphic_pair_snoc:
  assumes "no_isomorphic_pair E keys"
    and "\<forall>a b. check_isomorphism E a b \<longrightarrow> check_isomorphism E b a"
    and "\<forall>c \<in> set keys. \<not> check_isomorphism E n c"
  shows "no_isomorphic_pair E (keys @ [n])"
  using assms unfolding no_isomorphic_pair_def by auto

lemma reward_first_no_isomorphic_pair:
  assumes free: "no_isomorphic_pair E (map fst hyps)"
    and sym: "\<forall>a b. check_isomorphism E a b \<longrightarrow> check_isomorphism E b a"
    and len: "\<forall>k \<in> set (map fst hyps). len_pattern E k \<noteq> 0"
    and rest: "set hs \<subseteq> set (map fst hyps)"
  shows "no_isomorphic_pair E (map fst (fst (reward_hypotheses E g (h # hs) (hyps, {}))))"
proof -
  let ?obj = "hypothesis_object_to_reward E h hyps"
  let ?hyps' = "AList.update ?obj (reinforce E g (score_or_zero hyps ?obj)) hyps"
  have eq: "reward_hypotheses E g (h # hs) (hyps, {})
            = reward_hypotheses E g hs (?hyps', {?obj})"
    by (simp add: Let_def)
  have sub: "set hs \<subseteq> set (map fst ?hyps')"
    using rest by (auto simp: update_keys)
  have keys: "map fst (fst (reward_hypotheses E g hs (?hyps', {?obj}))) = map fst ?hyps'"
    using sub by (rule reward_hypotheses_keys_same)
  have "no_isomorphic_pair E (map fst ?hyps')"
  proof (cases "?obj \<in> set (map fst hyps)")
    case True
    then show ?thesis using free by (simp add: update_keys)
  next
    case False
    then have "\<forall>c \<in> set (map fst hyps). \<not> check_isomorphism E ?obj c"
      using hypothesis_object_cases [OF len, of h] by auto
    then have "no_isomorphic_pair E (map fst hyps @ [?obj])"
      using free sym by (intro no_isomorphic_pair_snoc) auto
    then show ?thesis using False by (simp add: update_keys)
  qed
  then show ?thesis unfolding eq keys .
qed

subsection \<open>The two branches of \<open>learning_step\<close>\<close>

lemma set_hypotheses_lookup:
  "map_of (words_to_hypotheses_and_scores (set_hypotheses word hyps L)) word = Some hyps"
  by (simp add: set_hypotheses_def update_conv')

lemma learning_step_confirmed:
  assumes "map_of (words_to_hypotheses_and_scores L) word = Some hyps"
    and "leading_entry hyps = Some (leading, old)"
    and "matched_exactly (compute_match_ratio E leading graph)"
    and "truthy E (matching_subgraph (compute_match_ratio E leading graph))"
  shows "learning_step E word graph L =
           (Returns True,
            set_hypotheses word (AList.update leading (reinforce E (learning_factor L) old) hyps)
              (L\<lparr>debug_counter := debug_counter L + 2\<rparr>))"
  using assms by (simp add: learning_step_def Let_def)

lemma learning_step_disconfirmed:
  assumes "map_of (words_to_hypotheses_and_scores L) word = Some hyps"
    and "leading_entry hyps = Some (leading, old)"
    and "\<not> (matched_exactly (compute_match_ratio E leading graph)
            \<and> truthy E (matching_subgraph (compute_match_ratio E leading graph)))"
  shows "learning_step E word graph L =
           (case hypotheses_to_reward E (graph_match_confirmation_threshold L) graph
                   (compute_match_ratio E leading graph)
                   (AList.update leading (penalize E (learning_factor L) old) hyps) (rng L) of
              (Raises err, r, n) \<Rightarrow>
                (Raises err,
                 set_hypotheses word (AList.update leading (penalize E (learning_factor L) old) hyps)
                   (L\<lparr>rng := r, debug_counter := debug_counter L + 2 + n\<rparr>))
            | (Returns to_reward, r, n) \<Rightarrow>
                (Returns (matched_exactly (compute_match_ratio E leading graph)),
                 set_hypotheses word
                   (fst (reward_hypotheses E (learning_factor L) to_reward
                      (AList.update leading (penalize E (learning_factor L) old) hyps, {})))
                   (L\<lparr>rng := r, debug_counter := debug_counter L + 2 + n\<rparr>)))"
  using assms
  by (auto simp add: learning_step_def Let_def split: prod.splits result.splits)

lemma hypotheses_to_reward_needs_nodes:
  "hypotheses_to_reward E thr graph pm hyps r = (Returns t, r', n)
     \<Longrightarrow> num_nodes_in_pattern pm \<noteq> 0"
  by (auto simp: hypotheses_to_reward_def match_ratio_def split: if_splits)

lemma exact_match_has_subgraph:
  assumes "num_nodes_in_pattern (compute_match_ratio E p g) \<noteq> 0"
    and "matched_exactly (compute_match_ratio E p g)"
  shows "truthy E (matching_subgraph (compute_match_ratio E p g))"
  using assms
  by (auto simp: compute_match_ratio_def matched_exactly_def Let_def split: if_splits)

lemma hypotheses_matching_object_subset:
  "hypotheses_matching_object E thr obj keys = (Returns hs, n) \<Longrightarrow> set hs \<subseteq> set keys"
proof (induction keys arbitrary: hs n)
  case Nil
  then show ?case by simp
next
  case (Cons k keys)
  then show ?case
    by (fastforce split: result.splits prod.splits if_splits)
qed

lemma hypotheses_to_reward_shape:
  assumes "hypotheses_to_reward E thr graph pm hyps r = (Returns t, r', n)"
  shows "\<exists>first rest. t = first # rest \<and> set rest \<subseteq> set (map fst hyps)"
  using assms
  by (auto simp: hypotheses_to_reward_def
           split: result.splits prod.splits if_splits
           dest!: hypotheses_matching_object_subset)

lemma max_by_score_in: "max_by_score e es \<in> set (e # es)"
proof (induction es arbitrary: e)
  case Nil
  then show ?case by simp
next
  case (Cons x es)
  have "max_by_score (if snd e < snd x then x else e) es
          \<in> set ((if snd e < snd x then x else e) # es)"
    by (rule Cons.IH)
  then show ?case by (auto split: if_splits)
qed

lemma leading_entry_in: "leading_entry hyps = Some x \<Longrightarrow> x \<in> set hyps"
proof (cases hyps)
  case Nil
  assume "leading_entry hyps = Some x"
  then show ?thesis using Nil by (simp add: leading_entry_def)
next
  case (Cons e es)
  assume "leading_entry hyps = Some x"
  then have "x = max_by_score e es" using Cons by (simp add: leading_entry_def)
  then show ?thesis using max_by_score_in [of e es] Cons by simp
qed

lemma leading_entry_key:
  "leading_entry hyps = Some (leading, old) \<Longrightarrow> leading \<in> set (map fst hyps)"
  by (drule leading_entry_in) force

lemma leading_entry_lookup:
  "distinct (map fst hyps) \<Longrightarrow> leading_entry hyps = Some (leading, old)
     \<Longrightarrow> map_of hyps leading = Some old"
  by (drule leading_entry_in) simp

lemma hypotheses_matching_object_returns:
  "\<forall>k \<in> set keys. len_pattern E k \<noteq> 0 \<Longrightarrow>
     \<exists>hs n. hypotheses_matching_object E thr obj keys = (Returns hs, n)"
proof (induction keys)
  case Nil
  then show ?case by simp
next
  case (Cons k keys)
  then obtain hs n where "hypotheses_matching_object E thr obj keys = (Returns hs, n)"
    by auto
  moreover have "num_nodes_in_pattern (compute_match_ratio E k obj) \<noteq> 0"
    using Cons.prems by (simp add: compute_match_ratio_def Let_def)
  ultimately show ?case by (simp add: match_ratio_def)
qed

lemma choice_returns:
  "seq \<noteq> [] \<Longrightarrow> fst (randbelow E r (length seq)) < length seq
     \<Longrightarrow> \<exists>x r'. choice E r seq = (Returns x, r')"
  by (auto simp: choice_def split: prod.splits)

lemma hypotheses_to_reward_returns:
  assumes "num_nodes_in_pattern pm \<noteq> 0"
    and "get_objects_from_perception E graph \<noteq> []"
    and "fst (randbelow E r (length (get_objects_from_perception E graph)))
           < length (get_objects_from_perception E graph)"
    and "\<forall>k \<in> set (map fst hyps). len_pattern E k \<noteq> 0"
  shows "\<exists>t r' n. hypotheses_to_reward E thr graph pm hyps r = (Returns t, r', n)"
proof -
  obtain ratio where ratio: "match_ratio E pm = Returns ratio"
    using assms(1) by (simp add: match_ratio_def)
  obtain x r' where ch: "choice E r (get_objects_from_perception E graph) = (Returns x, r')"
    using choice_returns [OF assms(2,3)] by blast
  obtain hs n where hm: "hypotheses_matching_object E thr x (map fst hyps) = (Returns hs, n)"
    using hypotheses_matching_object_returns [OF assms(4)] by blast
  show ?thesis by (simp add: hypotheses_to_reward_def ratio ch hm)
qed

lemma learning_step_rewards:
  assumes tbl: "map_of (words_to_hypotheses_and_scores L) word = Some hyps"
    and lead: "leading_entry hyps = Some (leading, old)"
    and d: "\<not> (matched_exactly (compute_match_ratio E leading graph)
            \<and> truthy E (matching_subgraph (compute_match_ratio E leading graph)))"
  shows "map_of (words_to_hypotheses_and_scores (snd (learning_step E word graph L))) word
           = Some (AList.update leading (penalize E (learning_factor L) old) hyps)
         \<or> (\<exists>first rest.
               set rest \<subseteq> set (map fst hyps)
             \<and> map_of (words_to_hypotheses_and_scores (snd (learning_step E word graph L))) word
                 = Some (fst (reward_hypotheses E (learning_factor L) (first # rest)
                          (AList.update leading (penalize E (learning_factor L) old) hyps, {}))))"
proof -
  let ?pen = "AList.update leading (penalize E (learning_factor L) old) hyps"
  let ?htr = "hypotheses_to_reward E (graph_match_confirmation_threshold L) graph
                (compute_match_ratio E leading graph) ?pen (rng L)"
  note step = learning_step_disconfirmed [OF tbl lead d]
  have keys: "map fst ?pen = map fst hyps"
    using leading_entry_key [OF lead] by (simp add: update_keys)
  obtain res r n where htr: "?htr = (res, r, n)" by (cases ?htr) auto
  show ?thesis
  proof (cases res)
    case (Raises err)
    then show ?thesis using step htr by (simp add: set_hypotheses_lookup)
  next
    case (Returns t)
    have "\<exists>first rest. t = first # rest \<and> set rest \<subseteq> set (map fst ?pen)"
      using htr [unfolded Returns] by (rule hypotheses_to_reward_shape)
    then obtain first rest where t: "t = first # rest" and sub: "set rest \<subseteq> set (map fst ?pen)"
      by blast
    have "map_of (words_to_hypotheses_and_scores (snd (learning_step E word graph L))) word
            = Some (fst (reward_hypotheses E (learning_factor L) (first # rest) (?pen, {})))"
      using step htr Returns t by (simp add: set_hypotheses_lookup)
    moreover have "set rest \<subseteq> set (map fst hyps)" using sub by (simp only: keys)
    ultimately show ?thesis by (intro disjI2 exI conjI)
  qed
qed

lemma reward_hypotheses_from_empty:
  "map_of (fst (reward_hypotheses E g hs (base, {}))) h = map_of base h
   \<or> map_of (fst (reward_hypotheses E g hs (base, {}))) h
       = Some (reinforce E g (score_or_zero base h))"
  using reward_hypotheses_once [of "{}" base E g base hs] by auto

lemma three_hypotheses_table:
  "map_of (words_to_hypotheses_and_scores three_hypotheses_learner) ''ball''
     = Some [([1, 2, 3, 4], 1 / 2), ([3, 2, 1], 1 / 4), ([5], 1 / 4)]"
  by (simp add: three_hypotheses_learner_def)

lemma three_hypotheses_leading:
  "leading_entry [([1, 2, 3, 4], 1 / 2 :: real), ([3, 2, 1], 1 / 4), ([5 :: nat], 1 / 4)]
     = Some ([1, 2, 3, 4], 1 / 2)"
  by (simp add: leading_entry_def)

lemma three_hypotheses_random_step:
  "map_of (words_to_hypotheses_and_scores
             (snd (learning_step node_engine ''ball'' [5, 6] three_hypotheses_learner))) ''ball''
     = Some [([1, 2, 3, 4], 1 / 4), ([3, 2, 1], 1 / 4), ([5], 5 / 8)]"
  by code_simp

lemma three_hypotheses_partial_step:
  "map_of (words_to_hypotheses_and_scores
             (snd (learning_step node_engine ''ball'' [1, 2, 3] three_hypotheses_learner))) ''ball''
     = Some [([1, 2, 3, 4], 1 / 4), ([3, 2, 1], 5 / 8), ([5], 1 / 4)]"
  by code_simp

subsection \<open>The leading hypothesis\<close>

text \<open>The entry that \<open>max\<close> returns is the first entry of maximal score: the entries
  before it have a smaller score and the entries after it have no greater one.\<close>

lemma max_by_score_keeps:
  "\<forall>e \<in> set es. snd e \<le> snd best \<Longrightarrow> max_by_score best es = best"
  by (induction es) auto

lemma max_by_score_first_max:
  assumes "snd best < snd x"
    and "\<forall>e \<in> set before. snd e < snd x"
    and "\<forall>e \<in> set after. snd e \<le> snd x"
  shows "max_by_score best (before @ x # after) = x"
  using assms
proof (induction before arbitrary: best)
  case Nil
  then show ?case by (simp add: max_by_score_keeps)
next
  case (Cons b before)
  have "snd (if snd best < snd b then b else best) < snd x"
    using Cons.prems by simp
  then have "max_by_score (if snd best < snd b then b else best) (before @ x # after) = x"
    using Cons.prems by (intro Cons.IH) simp_all
  then show ?case by simp
qed

lemma leading_entry_first_max:
  assumes "\<forall>e \<in> set before. snd e < snd x"
    and "\<forall>e \<in> set after. snd e \<le> snd x"
  shows "leading_entry (before @ x # after) = Some x"
proof (cases before)
  case Nil
  then show ?thesis using assms by (simp add: leading_entry_def max_by_score_keeps)
next
  case (Cons b bs)
  have "max_by_score b (bs @ x # after) = x"
    using assms Cons by (intro max_by_score_first_max) simp_all
  then show ?thesis using Cons by (simp add: leading_entry_def)
qed

lemma max_by_score_snoc:
  "max_by_score best (es @ [e])
     = (if snd (max_by_score best es) < snd e then e else max_by_score best es)"
  by (induction es arbitrary: best) simp_all

lemma max_by_score_split:
  "\<exists>before after. best # es = before @ max_by_score best es # after
     \<and> (\<forall>e \<in> set before. snd e < snd (max_by_score best es))
     \<and> (\<forall>e \<in> set after. snd e \<le> snd (max_by_score best es))"
proof (induction es rule: rev_induct)
  case Nil
  have "[best] = [] @ max_by_score best [] # []" by simp
  then show ?case by fastforce
next
  case (snoc e es)
  let ?m = "max_by_score best es"
  obtain before after where sp: "best # es = before @ ?m # after"
    and b: "\<forall>y \<in> set before. snd y < snd ?m"
    and a: "\<forall>y \<in> set after. snd y \<le> snd ?m"
    using snoc.IH by blast
  show ?case
  proof (cases "snd ?m < snd e")
    case True
    have m: "max_by_score best (es @ [e]) = e" using True by (simp add: max_by_score_snoc)
    have all: "\<forall>y \<in> set (best # es). snd y < snd e"
      unfolding sp
    proof
      fix y
      assume "y \<in> set (before @ ?m # after)"
      then have "snd y \<le> snd ?m" using b a by auto
      then show "snd y < snd e" using True by simp
    qed
    have "best # es @ [e] = (best # es) @ e # []
            \<and> (\<forall>y \<in> set (best # es). snd y < snd e)
            \<and> (\<forall>y \<in> set []. snd y \<le> snd e)"
      using all by simp
    then show ?thesis unfolding m by (intro exI)
  next
    case False
    have m: "max_by_score best (es @ [e]) = ?m" using False by (simp add: max_by_score_snoc)
    have "best # es @ [e] = before @ ?m # (after @ [e])" using sp by simp
    moreover have "\<forall>y \<in> set (after @ [e]). snd y \<le> snd ?m" using a False by auto
    ultimately have "best # es @ [e] = before @ ?m # (after @ [e])
            \<and> (\<forall>y \<in> set before. snd y < snd ?m)
            \<and> (\<forall>y \<in> set (after @ [e]). snd y \<le> snd ?m)"
      using b by simp
    then show ?thesis unfolding m by (intro exI)
  qed
qed

lemma leading_entry_iff:
  "leading_entry hyps = Some x \<longleftrightarrow>
     (\<exists>before after. hyps = before @ x # after
        \<and> (\<forall>e \<in> set before. snd e < snd x)
        \<and> (\<forall>e \<in> set after. snd e \<le> snd x))"
proof
  assume l: "leading_entry hyps = Some x"
  then obtain best es where h: "hyps = best # es" and x: "x = max_by_score best es"
    by (cases hyps) (simp_all add: leading_entry_def)
  show "\<exists>before after. hyps = before @ x # after
        \<and> (\<forall>e \<in> set before. snd e < snd x)
        \<and> (\<forall>e \<in> set after. snd e \<le> snd x)"
    unfolding h x by (rule max_by_score_split)
next
  assume "\<exists>before after. hyps = before @ x # after
        \<and> (\<forall>e \<in> set before. snd e < snd x)
        \<and> (\<forall>e \<in> set after. snd e \<le> snd x)"
  then show "leading_entry hyps = Some x"
    using leading_entry_first_max by blast
qed

lemma update_split:
  "k \<notin> fst ` set before
     \<Longrightarrow> AList.update k v (before @ (k, old) # after) = before @ (k, v) # after"
  by (induction before) auto

subsection \<open>Confirmation and disconfirmation\<close>

lemma learning_step_split:
  assumes tbl: "map_of (words_to_hypotheses_and_scores L) word
                  = Some (before @ (leading, old) # after)"
    and before: "\<forall>e \<in> set before. snd e < old"
    and after: "\<forall>e \<in> set after. snd e \<le> old"
    and keys: "distinct (map fst (before @ (leading, old) # after))"
  shows "leading_entry (before @ (leading, old) # after) = Some (leading, old)"
    and "AList.update leading v (before @ (leading, old) # after)
           = before @ (leading, v) # after"
proof -
  show "leading_entry (before @ (leading, old) # after) = Some (leading, old)"
    using before after by (intro leading_entry_first_max) simp_all
  have "leading \<notin> fst ` set before" using keys by auto
  then show "AList.update leading v (before @ (leading, old) # after)
               = before @ (leading, v) # after"
    by (rule update_split)
qed

lemma reward_hypotheses_leading:
  assumes "leading \<notin> fst ` set before"
  shows "(leading \<notin> snd (reward_hypotheses E g t (before @ (leading, p) # after, {})) \<longrightarrow>
            map_of (fst (reward_hypotheses E g t (before @ (leading, p) # after, {}))) leading
              = Some p)
       \<and> (leading \<in> snd (reward_hypotheses E g t (before @ (leading, p) # after, {})) \<longrightarrow>
            map_of (fst (reward_hypotheses E g t (before @ (leading, p) # after, {}))) leading
              = Some (reinforce E g p))
       \<and> leading \<in> set (map fst (fst (reward_hypotheses E g t
                                        (before @ (leading, p) # after, {}))))"
proof -
  let ?pen = "before @ (leading, p) # after"
  let ?res = "reward_hypotheses E g t (?pen, {})"
  have p: "map_of ?pen leading = Some p"
    using assms by (simp add: map_add_Some_iff map_of_eq_None_iff)
  then have z: "score_or_zero ?pen leading = p" by (simp add: score_or_zero_def)
  have once: "\<forall>h. (h \<in> snd ?res \<longrightarrow>
                     map_of (fst ?res) h = Some (reinforce E g (score_or_zero ?pen h)))
                \<and> (h \<notin> snd ?res \<longrightarrow> map_of (fst ?res) h = map_of ?pen h)"
    by (rule reward_hypotheses_once) simp
  have a: "leading \<notin> snd ?res \<longrightarrow> map_of (fst ?res) leading = Some p"
    using once p by metis
  have b: "leading \<in> snd ?res \<longrightarrow> map_of (fst ?res) leading = Some (reinforce E g p)"
    using once z by metis
  have "leading \<in> set (map fst ?pen)" by simp
  then have c: "leading \<in> set (map fst (fst ?res))"
    using reward_hypotheses_keys_mono [of ?pen E g t "{}"] by blast
  show ?thesis using a b c by (intro conjI)
qed

text \<open>
  Claim C1, as amended. Let the word's hypothesis dictionary be
  \<open>before @ (leading, old) # after\<close> with \<open>(leading, old)\<close> its first entry of maximal
  score, and let \<open>pm\<close> be the partial match of \<open>leading\<close> against the scene. If \<open>pm\<close>
  is exact and has a matching subgraph, \<open>learning_step\<close> returns \<open>True\<close> (confirmed)
  and has replaced the leading score by \<open>old + \<gamma> * (1 - old)\<close>, each operation rounded
  to a float, nothing else of the dictionary changed. Otherwise the leading score is
  replaced by \<open>old * (1 - \<gamma>)\<close>, the entry staying where it is, and the list
  \<open>hypotheses_to_reward\<close> is computed on that dictionary: if that raises, the step
  raises the same error with the penalty written and nothing rewarded; if it returns
  a list, the step returns \<open>False\<close> (not confirmed) after the reward loop has run on
  the penalized dictionary, where the leading hypothesis is still a key and has the
  score \<open>old * (1 - \<gamma>)\<close>, or one reward of it if the loop boosted the leading
  hypothesis itself. In particular the step returns \<open>False\<close> whenever no stored
  pattern is empty, the scene has a candidate object and the generator's draw is an
  index of the candidate list.
\<close>

theorem learning_step_confirms_or_penalizes:
  assumes tbl: "map_of (words_to_hypotheses_and_scores L) word
                  = Some (before @ (leading, old) # after)"
    and before: "\<forall>e \<in> set before. snd e < old"
    and after: "\<forall>e \<in> set after. snd e \<le> old"
    and keys: "distinct (map fst (before @ (leading, old) # after))"
    and pm: "pm = compute_match_ratio E leading graph"
    and reinforced:
      "reinforced = round_float E (old + round_float E (learning_factor L
                                                        * round_float E (1 - old)))"
    and penalized: "penalized = round_float E (old * round_float E (1 - learning_factor L))"
    and rewards:
      "rewards = hypotheses_to_reward E (graph_match_confirmation_threshold L) graph pm
                   (before @ (leading, penalized) # after) (rng L)"
  shows "(matched_exactly pm \<and> truthy E (matching_subgraph pm) \<longrightarrow>
            learning_step E word graph L
              = (Returns True,
                 set_hypotheses word (before @ (leading, reinforced) # after)
                   (L\<lparr>debug_counter := debug_counter L + 2\<rparr>)))
       \<and> (\<not> (matched_exactly pm \<and> truthy E (matching_subgraph pm)) \<longrightarrow>
            (\<forall>err r n. rewards = (Raises err, r, n) \<longrightarrow>
               learning_step E word graph L
                 = (Raises err,
                    set_hypotheses word (before @ (leading, penalized) # after)
                      (L\<lparr>rng := r, debug_counter := debug_counter L + 2 + n\<rparr>)))
          \<and> (\<forall>to_reward r n final boosted.
               rewards = (Returns to_reward, r, n)
               \<and> (final, boosted) = reward_hypotheses E (learning_factor L) to_reward
                                       (before @ (leading, penalized) # after, {})
               \<longrightarrow>
                 learning_step E word graph L
                   = (Returns False,
                      set_hypotheses word final
                        (L\<lparr>rng := r, debug_counter := debug_counter L + 2 + n\<rparr>))
               \<and> leading \<in> set (map fst final)
               \<and> (leading \<notin> boosted \<longrightarrow> map_of final leading = Some penalized)
               \<and> (leading \<in> boosted \<longrightarrow>
                    map_of final leading
                      = Some (round_float E
                                (penalized + round_float E (learning_factor L
                                                 * round_float E (1 - penalized))))))
          \<and> ((\<forall>k \<in> set (map fst (before @ (leading, old) # after)). len_pattern E k \<noteq> 0)
              \<and> get_objects_from_perception E graph \<noteq> []
              \<and> fst (randbelow E (rng L) (length (get_objects_from_perception E graph)))
                   < length (get_objects_from_perception E graph)
              \<longrightarrow> (\<exists>to_reward r n. rewards = (Returns to_reward, r, n))))"
proof -
  let ?hyps = "before @ (leading, old) # after"
  let ?pen = "before @ (leading, penalized) # after"
  note lead = learning_step_split(1) [OF tbl before after keys]
  note upd = learning_step_split(2) [OF tbl before after keys]
  have fresh: "leading \<notin> fst ` set before" using keys by auto
  have r: "reinforce E (learning_factor L) old = reinforced"
    by (simp add: reinforce_def reinforced)
  have p: "penalize E (learning_factor L) old = penalized"
    by (simp add: penalize_def penalized)
  have confirmed: "learning_step E word graph L
              = (Returns True,
                 set_hypotheses word (before @ (leading, reinforced) # after)
                   (L\<lparr>debug_counter := debug_counter L + 2\<rparr>))"
    if c: "matched_exactly pm \<and> truthy E (matching_subgraph pm)"
  proof -
    have c1: "matched_exactly (compute_match_ratio E leading graph)"
      and c2: "truthy E (matching_subgraph (compute_match_ratio E leading graph))"
      using c by (simp_all add: pm)
    show ?thesis
      using learning_step_confirmed [OF tbl lead c1 c2] by (simp add: upd r)
  qed
  have step: "learning_step E word graph L =
           (case rewards of
              (Raises err, r, n) \<Rightarrow>
                (Raises err,
                 set_hypotheses word ?pen
                   (L\<lparr>rng := r, debug_counter := debug_counter L + 2 + n\<rparr>))
            | (Returns to_reward, r, n) \<Rightarrow>
                (Returns (matched_exactly pm),
                 set_hypotheses word
                   (fst (reward_hypotheses E (learning_factor L) to_reward (?pen, {})))
                   (L\<lparr>rng := r, debug_counter := debug_counter L + 2 + n\<rparr>)))"
    if d: "\<not> (matched_exactly pm \<and> truthy E (matching_subgraph pm))"
    using learning_step_disconfirmed [OF tbl lead d [unfolded pm], unfolded upd p]
    unfolding rewards pm .
  have raises: "\<forall>err r n. rewards = (Raises err, r, n) \<longrightarrow>
               learning_step E word graph L
                 = (Raises err,
                    set_hypotheses word ?pen
                      (L\<lparr>rng := r, debug_counter := debug_counter L + 2 + n\<rparr>))"
    if d: "\<not> (matched_exactly pm \<and> truthy E (matching_subgraph pm))"
    by (simp add: step [OF d])
  have returns: "\<forall>to_reward r n final boosted.
               rewards = (Returns to_reward, r, n)
               \<and> (final, boosted) = reward_hypotheses E (learning_factor L) to_reward (?pen, {})
               \<longrightarrow>
                 learning_step E word graph L
                   = (Returns False,
                      set_hypotheses word final
                        (L\<lparr>rng := r, debug_counter := debug_counter L + 2 + n\<rparr>))
               \<and> leading \<in> set (map fst final)
               \<and> (leading \<notin> boosted \<longrightarrow> map_of final leading = Some penalized)
               \<and> (leading \<in> boosted \<longrightarrow>
                    map_of final leading
                      = Some (round_float E
                                (penalized + round_float E (learning_factor L
                                                 * round_float E (1 - penalized)))))"
    if d: "\<not> (matched_exactly pm \<and> truthy E (matching_subgraph pm))"
  proof (intro allI impI)
    fix to_reward r n final boosted
    assume a: "rewards = (Returns to_reward, r, n)
               \<and> (final, boosted) = reward_hypotheses E (learning_factor L) to_reward (?pen, {})"
    then have rw: "rewards = (Returns to_reward, r, n)"
      and fb: "reward_hypotheses E (learning_factor L) to_reward (?pen, {}) = (final, boosted)"
      by simp_all
    have nz: "num_nodes_in_pattern pm \<noteq> 0"
      using rw [unfolded rewards] by (rule hypotheses_to_reward_needs_nodes)
    have ne: "\<not> matched_exactly pm"
      using d exact_match_has_subgraph [of E leading graph] nz unfolding pm by blast
    have one: "learning_step E word graph L
                   = (Returns False,
                      set_hypotheses word final
                        (L\<lparr>rng := r, debug_counter := debug_counter L + 2 + n\<rparr>))"
      by (simp add: step [OF d] rw fb ne)
    note rl = reward_hypotheses_leading [OF fresh, of E "learning_factor L" to_reward
                penalized after, unfolded fb fst_conv snd_conv]
    show "learning_step E word graph L
                   = (Returns False,
                      set_hypotheses word final
                        (L\<lparr>rng := r, debug_counter := debug_counter L + 2 + n\<rparr>))
               \<and> leading \<in> set (map fst final)
               \<and> (leading \<notin> boosted \<longrightarrow> map_of final leading = Some penalized)
               \<and> (leading \<in> boosted \<longrightarrow>
                    map_of final leading
                      = Some (round_float E
                                (penalized + round_float E (learning_factor L
                                                 * round_float E (1 - penalized)))))"
      using one rl by (simp add: reinforce_def)
  qed
  have total: "\<exists>to_reward r n. rewards = (Returns to_reward, r, n)"
    if ok: "(\<forall>k \<in> set (map fst ?hyps). len_pattern E k \<noteq> 0)
              \<and> get_objects_from_perception E graph \<noteq> []
              \<and> fst (randbelow E (rng L) (length (get_objects_from_perception E graph)))
                   < length (get_objects_from_perception E graph)"
  proof -
    have "len_pattern E leading \<noteq> 0" using ok by simp
    then have nz: "num_nodes_in_pattern pm \<noteq> 0"
      by (simp add: pm compute_match_ratio_def Let_def)
    have k: "map fst ?pen = map fst ?hyps" by simp
    have all: "\<forall>k \<in> set (map fst ?pen). len_pattern E k \<noteq> 0"
      using ok unfolding k by blast
    have objs: "get_objects_from_perception E graph \<noteq> []" using ok by blast
    have draw: "fst (randbelow E (rng L) (length (get_objects_from_perception E graph)))
                  < length (get_objects_from_perception E graph)"
      using ok by blast
    show ?thesis
      unfolding rewards
      using hypotheses_to_reward_returns
              [OF nz objs draw all, of "graph_match_confirmation_threshold L"]
      by blast
  qed
  show ?thesis
    using confirmed raises returns total by (intro conjI impI)
qed

theorem learning_step_confirms_or_penalizes_witness:
  "learning_step node_engine ''ball'' [1, 2, 5] quarter_learner
     = (Returns True,
        quarter_learner
          \<lparr>words_to_hypotheses_and_scores := [(''ball'', [([3], 1 / 4), ([1, 2], 5 / 8)])],
           debug_counter := 2\<rparr>)
   \<and> learning_step node_engine ''ball'' [5, 6] quarter_learner
     = (Returns False,
        quarter_learner
          \<lparr>words_to_hypotheses_and_scores :=
             [(''ball'', [([3], 1 / 4), ([1, 2], 3 / 8), ([5], 1 / 4)])],
           rng := 1, debug_counter := 4\<rparr>)
   \<and> learning_step node_engine ''ball'' [1, 5] quarter_learner
     = (Returns False,
        quarter_learner
          \<lparr>words_to_hypotheses_and_scores :=
             [(''ball'', [([3], 1 / 4), ([1, 2], 3 / 8), ([1], 1 / 4)])],
           rng := 1, debug_counter := 4\<rparr>)"
proof -
  have tbl: "map_of (words_to_hypotheses_and_scores quarter_learner) ''ball''
               = Some ([([3], 1 / 4)] @ ([1, 2], 1 / 2) # [])"
    by (simp add: quarter_learner_def)
  have before: "\<forall>e \<in> set [([3 :: nat], 1 / 4 :: real)]. snd e < 1 / 2" by simp
  have after: "\<forall>e \<in> set ([] :: (nat list \<times> real) list). snd e \<le> 1 / 2" by simp
  have keys: "distinct (map fst ([([3 :: nat], 1 / 4 :: real)] @ ([1, 2], 1 / 2) # []))"
    by simp
  note t = learning_step_confirms_or_penalizes
             [OF tbl before after keys refl refl refl refl, of node_engine]
  have c: "matched_exactly (compute_match_ratio node_engine [1, 2] [1, 2, 5])
           \<and> truthy node_engine
               (matching_subgraph (compute_match_ratio node_engine [1, 2] [1, 2, 5]))"
    by (simp add: matched_exactly_def compute_match_ratio_def truthy_def node_engine_def)
  have d: "\<not> (matched_exactly (compute_match_ratio node_engine [1, 2] g)
              \<and> truthy node_engine
                  (matching_subgraph (compute_match_ratio node_engine [1, 2] g)))"
    if "g = [5, 6] \<or> g = [1, 5]" for g
    using that
    by (auto simp add: matched_exactly_def compute_match_ratio_def truthy_def node_engine_def)
  note d = this [OF disjI1 [OF refl]] this [OF disjI2 [OF refl]]
  have g: "learning_factor quarter_learner = 1 / 4"
    and r: "rng quarter_learner = 0"
    and thr: "graph_match_confirmation_threshold quarter_learner = 7 / 10"
    and dc: "debug_counter quarter_learner = 0"
    and rf: "round_float node_engine x = x" for x
    by (simp_all add: quarter_learner_def new_learner_def node_engine_def)
  have A: "learning_step node_engine ''ball'' [1, 2, 5] quarter_learner
     = (Returns True,
        quarter_learner
          \<lparr>words_to_hypotheses_and_scores := [(''ball'', [([3], 1 / 4), ([1, 2], 5 / 8)])],
           debug_counter := 2\<rparr>)"
    using t [of "[1, 2, 5]", THEN conjunct1] c
    by (simp add: g rf dc set_hypotheses_def quarter_learner_def new_learner_def)
  have B: "learning_step node_engine ''ball'' [5, 6] quarter_learner
     = (Returns False,
        quarter_learner
          \<lparr>words_to_hypotheses_and_scores :=
             [(''ball'', [([3], 1 / 4), ([1, 2], 3 / 8), ([5], 1 / 4)])],
           rng := 1, debug_counter := 4\<rparr>)"
  proof -
    have h1: "hypotheses_to_reward node_engine
                (graph_match_confirmation_threshold quarter_learner) [5, 6]
                (compute_match_ratio node_engine [1, 2] [5, 6])
                ([([3], 1 / 4)]
                   @ ([1, 2], round_float node_engine
                                (1 / 2 * round_float node_engine
                                           (1 - learning_factor quarter_learner))) # [])
                (rng quarter_learner)
              = (Returns [[5]], 1, 2)"
      by code_simp
    have h2: "([([3], 1 / 4), ([1, 2], 3 / 8), ([5], 1 / 4)], {[5]})
              = reward_hypotheses node_engine (learning_factor quarter_learner) [[5]]
                  ([([3], 1 / 4)]
                     @ ([1, 2], round_float node_engine
                                  (1 / 2 * round_float node_engine
                                             (1 - learning_factor quarter_learner))) # [],
                   {})"
      by code_simp
    show ?thesis
      using t [of "[5, 6]", THEN conjunct2, THEN mp, OF d(1), THEN conjunct2, THEN conjunct1,
               rule_format, OF conjI, OF h1 h2]
      by (simp add: dc set_hypotheses_def quarter_learner_def new_learner_def)
  qed
  have C: "learning_step node_engine ''ball'' [1, 5] quarter_learner
     = (Returns False,
        quarter_learner
          \<lparr>words_to_hypotheses_and_scores :=
             [(''ball'', [([3], 1 / 4), ([1, 2], 3 / 8), ([1], 1 / 4)])],
           rng := 1, debug_counter := 4\<rparr>)"
  proof -
    have h1: "hypotheses_to_reward node_engine
                (graph_match_confirmation_threshold quarter_learner) [1, 5]
                (compute_match_ratio node_engine [1, 2] [1, 5])
                ([([3], 1 / 4)]
                   @ ([1, 2], round_float node_engine
                                (1 / 2 * round_float node_engine
                                           (1 - learning_factor quarter_learner))) # [])
                (rng quarter_learner)
              = (Returns [[1]], 1, 2)"
      by code_simp
    have h2: "([([3], 1 / 4), ([1, 2], 3 / 8), ([1], 1 / 4)], {[1]})
              = reward_hypotheses node_engine (learning_factor quarter_learner) [[1]]
                  ([([3], 1 / 4)]
                     @ ([1, 2], round_float node_engine
                                  (1 / 2 * round_float node_engine
                                             (1 - learning_factor quarter_learner))) # [],
                   {})"
      by code_simp
    show ?thesis
      using t [of "[1, 5]", THEN conjunct2, THEN mp, OF d(2), THEN conjunct2, THEN conjunct1,
               rule_format, OF conjI, OF h1 h2]
      by (simp add: dc set_hypotheses_def quarter_learner_def new_learner_def)
  qed
  show ?thesis using A B C by (intro conjI)
qed

text \<open>The step raises instead of reporting: a scene with the ground alone has no
  candidate object for \<open>Random.choice\<close>, and the penalty is written by then.\<close>

theorem learning_step_raises_after_penalty:
  "learning_step ground_engine ''ball'' [0] quarter_learner
     = (Raises IndexError,
        quarter_learner
          \<lparr>words_to_hypotheses_and_scores := [(''ball'', [([3], 1 / 4), ([1, 2], 3 / 8)])],
           debug_counter := 2\<rparr>)"
  by code_simp

text \<open>
  Claim C4. In one \<open>learning_step\<close>, let \<open>base\<close> be the word's dictionary after the
  leading score was penalized (or the dictionary itself in the confirming branch).
  Every pattern's score in the dictionary the step leaves is either its score in
  \<open>base\<close>, untouched, or one application of the reward formula to its score in \<open>base\<close>
  (to 0 for a pattern that was not in it): no pattern is rewarded twice, whichever
  rules selected it.
\<close>

theorem no_double_reward:
  assumes tbl: "map_of (words_to_hypotheses_and_scores L) word = Some hyps"
    and lead: "leading_entry hyps = Some (leading, old)"
    and dist: "distinct (map fst hyps)"
    and pm: "pm = compute_match_ratio E leading graph"
    and base: "base = (if matched_exactly pm \<and> truthy E (matching_subgraph pm) then hyps
                       else AList.update leading (penalize E (learning_factor L) old) hyps)"
  shows "\<exists>final.
           map_of (words_to_hypotheses_and_scores (snd (learning_step E word graph L))) word
             = Some final
         \<and> (\<forall>h. map_of final h = map_of base h
                \<or> map_of final h = Some (reinforce E (learning_factor L) (score_or_zero base h)))"
proof (cases "matched_exactly pm \<and> truthy E (matching_subgraph pm)")
  case True
  have b: "base = hyps" by (simp add: base True)
  have old: "map_of hyps leading = Some old" using dist lead by (rule leading_entry_lookup)
  have c1: "matched_exactly (compute_match_ratio E leading graph)"
    and c2: "truthy E (matching_subgraph (compute_match_ratio E leading graph))"
    using True unfolding pm by simp_all
  have "map_of (words_to_hypotheses_and_scores (snd (learning_step E word graph L))) word
          = Some (AList.update leading (reinforce E (learning_factor L) old) hyps)"
    by (simp add: learning_step_confirmed [OF tbl lead c1 c2] set_hypotheses_lookup)
  moreover have "\<forall>h. map_of (AList.update leading (reinforce E (learning_factor L) old) hyps) h
                       = map_of base h
                   \<or> map_of (AList.update leading (reinforce E (learning_factor L) old) hyps) h
                       = Some (reinforce E (learning_factor L) (score_or_zero base h))"
    using old by (simp add: b update_conv' score_or_zero_def)
  ultimately show ?thesis by (intro exI conjI)
next
  case False
  have b: "base = AList.update leading (penalize E (learning_factor L) old) hyps"
    by (simp add: base False)
  from learning_step_rewards [OF tbl lead False [unfolded pm]]
  show ?thesis
  proof
    assume "map_of (words_to_hypotheses_and_scores (snd (learning_step E word graph L))) word
              = Some (AList.update leading (penalize E (learning_factor L) old) hyps)"
    moreover have "\<forall>h. map_of base h = map_of base h
                   \<or> map_of base h = Some (reinforce E (learning_factor L) (score_or_zero base h))"
      by simp
    ultimately show ?thesis unfolding b by (intro exI conjI)
  next
    assume "\<exists>first rest.
               set rest \<subseteq> set (map fst hyps)
             \<and> map_of (words_to_hypotheses_and_scores (snd (learning_step E word graph L))) word
                 = Some (fst (reward_hypotheses E (learning_factor L) (first # rest)
                          (AList.update leading (penalize E (learning_factor L) old) hyps, {})))"
    then obtain t where t:
      "map_of (words_to_hypotheses_and_scores (snd (learning_step E word graph L))) word
         = Some (fst (reward_hypotheses E (learning_factor L) t (base, {})))"
      unfolding b by blast
    have "\<forall>h. map_of (fst (reward_hypotheses E (learning_factor L) t (base, {}))) h
                 = map_of base h
             \<or> map_of (fst (reward_hypotheses E (learning_factor L) t (base, {}))) h
                 = Some (reinforce E (learning_factor L) (score_or_zero base h))"
      by (intro allI reward_hypotheses_from_empty)
    then show ?thesis using t by simp
  qed
qed

theorem no_double_reward_witness:
  "distinct (map fst [([1, 2, 3, 4], 1 / 2 :: real), ([3, 2, 1], 1 / 4), ([5 :: nat], 1 / 4)])
   \<and> map_of (words_to_hypotheses_and_scores
               (snd (learning_step node_engine ''ball'' [5, 6] three_hypotheses_learner))) ''ball''
       = Some [([1, 2, 3, 4], 1 / 4), ([3, 2, 1], 1 / 4), ([5], 5 / 8)]
   \<and> (5 / 8 :: real) = reinforce node_engine (1 / 2) (1 / 4)
   \<and> (map_of [([1, 2, 3, 4], 1 / 4 :: real), ([3, 2, 1], 1 / 4), ([5 :: nat], 5 / 8)] [5]
         = Some (1 / 4)
       \<or> map_of [([1, 2, 3, 4], 1 / 4 :: real), ([3, 2, 1], 1 / 4), ([5 :: nat], 5 / 8)] [5]
         = Some (reinforce node_engine (1 / 2) (1 / 4)))"
proof -
  have dist: "distinct (map fst [([1, 2, 3, 4], 1 / 2 :: real), ([3, 2, 1], 1 / 4), ([5 :: nat], 1 / 4)])"
    by simp
  have g: "learning_factor three_hypotheses_learner = 1 / 2"
    by (simp add: three_hypotheses_learner_def test_learner_def new_learner_def)
  have d: "\<not> (matched_exactly (compute_match_ratio node_engine [1, 2, 3, 4] [5, 6])
           \<and> truthy node_engine
                (matching_subgraph (compute_match_ratio node_engine [1, 2, 3, 4] [5, 6])))"
    by (simp add: matched_exactly_def compute_match_ratio_def truthy_def node_engine_def)
  obtain final where
    f: "map_of (words_to_hypotheses_and_scores
          (snd (learning_step node_engine ''ball'' [5, 6] three_hypotheses_learner))) ''ball''
        = Some final"
    and once: "\<forall>h. map_of final h
                  = map_of (AList.update [1, 2, 3, 4] (penalize node_engine (1 / 2) (1 / 2))
                      [([1, 2, 3, 4], 1 / 2), ([3, 2, 1], 1 / 4), ([5], 1 / 4)]) h
               \<or> map_of final h
                  = Some (reinforce node_engine (1 / 2)
                      (score_or_zero (AList.update [1, 2, 3, 4] (penalize node_engine (1 / 2) (1 / 2))
                         [([1, 2, 3, 4], 1 / 2), ([3, 2, 1], 1 / 4), ([5], 1 / 4)]) h))"
    using no_double_reward [OF three_hypotheses_table three_hypotheses_leading dist refl refl,
            of node_engine "[5, 6]"] d
    by (auto simp: g)
  have fin: "final = [([1, 2, 3, 4], 1 / 4), ([3, 2, 1], 1 / 4), ([5], 5 / 8)]"
    using f three_hypotheses_random_step by simp
  have "map_of final [5] = Some (1 / 4) \<or> map_of final [5] = Some (reinforce node_engine (1 / 2) (1 / 4))"
    using once [rule_format, of "[5]"] by (simp add: score_or_zero_def penalize_def)
  then show ?thesis
    using dist three_hypotheses_random_step unfolding fin by (simp add: reinforce_def)
qed

text \<open>
  Claim C5. Let the isomorphism test be symmetric and no stored pattern be empty.
  A hypothesis to reward that is isomorphic to a key of a dictionary \<open>d\<close> is resolved
  to a key of \<open>d\<close>; rewarding it leaves the keys of \<open>d\<close> as they are and rewards that
  key. And if no two different keys of the word's dictionary are isomorphic before a
  \<open>learning_step\<close>, no two different keys of it are isomorphic after the step.
\<close>

theorem isomorphism_dedup:
  assumes tbl: "map_of (words_to_hypotheses_and_scores L) word = Some hyps"
    and lead: "leading_entry hyps = Some (leading, old)"
    and sym: "\<forall>a b. check_isomorphism E a b \<longrightarrow> check_isomorphism E b a"
    and len: "\<forall>k \<in> set (map fst hyps). len_pattern E k \<noteq> 0"
  shows "((\<forall>k \<in> set (map fst d). len_pattern E k \<noteq> 0)
          \<and> (\<exists>c \<in> set (map fst d). check_isomorphism E h c) \<longrightarrow>
              hypothesis_object_to_reward E h d \<in> set (map fst d)
            \<and> map fst (fst (reward_hypotheses E g [h] (d, {}))) = map fst d
            \<and> map_of (fst (reward_hypotheses E g [h] (d, {})))
                (hypothesis_object_to_reward E h d)
                = Some (reinforce E g (score_or_zero d (hypothesis_object_to_reward E h d))))
       \<and> (no_isomorphic_pair E (map fst hyps) \<longrightarrow>
            (\<exists>final.
               map_of (words_to_hypotheses_and_scores (snd (learning_step E word graph L))) word
                 = Some final
             \<and> no_isomorphic_pair E (map fst final)))"
proof (rule conjI; rule impI)
  assume a: "(\<forall>k \<in> set (map fst d). len_pattern E k \<noteq> 0)
          \<and> (\<exists>c \<in> set (map fst d). check_isomorphism E h c)"
  then have lend: "\<forall>k \<in> set (map fst d). len_pattern E k \<noteq> 0"
    and iso: "\<exists>c \<in> set (map fst d). check_isomorphism E h c"
    by blast+
  let ?obj = "hypothesis_object_to_reward E h d"
  have "?obj \<in> set (map fst d)
        \<or> (?obj = h \<and> (\<forall>c \<in> set (map fst d). \<not> check_isomorphism E h c))"
    using lend by (rule hypothesis_object_cases)
  then have obj: "?obj \<in> set (map fst d)"
    using iso by auto
  have k: "map fst (fst (reward_hypotheses E g [h] (d, {}))) = map fst d"
    using obj by (simp add: Let_def update_keys)
  have v: "map_of (fst (reward_hypotheses E g [h] (d, {}))) ?obj
          = Some (reinforce E g (score_or_zero d ?obj))"
    by (simp add: Let_def update_conv')
  show "?obj \<in> set (map fst d)
        \<and> map fst (fst (reward_hypotheses E g [h] (d, {}))) = map fst d
        \<and> map_of (fst (reward_hypotheses E g [h] (d, {}))) ?obj
            = Some (reinforce E g (score_or_zero d ?obj))"
    using obj k v by (intro conjI)
next
  assume free: "no_isomorphic_pair E (map fst hyps)"
  let ?pen = "AList.update leading (penalize E (learning_factor L) old) hyps"
  have keys: "map fst ?pen = map fst hyps"
    using leading_entry_key [OF lead] by (simp add: update_keys)
  show "\<exists>final.
          map_of (words_to_hypotheses_and_scores (snd (learning_step E word graph L))) word
            = Some final
        \<and> no_isomorphic_pair E (map fst final)"
  proof (cases "matched_exactly (compute_match_ratio E leading graph)
                \<and> truthy E (matching_subgraph (compute_match_ratio E leading graph))")
    case True
    have "map fst (AList.update leading (reinforce E (learning_factor L) old) hyps) = map fst hyps"
      using leading_entry_key [OF lead] by (simp add: update_keys)
    moreover have c1: "matched_exactly (compute_match_ratio E leading graph)"
      and c2: "truthy E (matching_subgraph (compute_match_ratio E leading graph))"
      using True by simp_all
    ultimately show ?thesis
      using free
      by (simp add: learning_step_confirmed [OF tbl lead c1 c2] set_hypotheses_lookup)
  next
    case False
    from learning_step_rewards [OF tbl lead False]
    show ?thesis
    proof
      assume "map_of (words_to_hypotheses_and_scores (snd (learning_step E word graph L))) word
                = Some ?pen"
      then show ?thesis using free keys by simp
    next
      assume "\<exists>first rest.
               set rest \<subseteq> set (map fst hyps)
             \<and> map_of (words_to_hypotheses_and_scores (snd (learning_step E word graph L))) word
                 = Some (fst (reward_hypotheses E (learning_factor L) (first # rest) (?pen, {})))"
      then obtain first rest where sub: "set rest \<subseteq> set (map fst ?pen)"
        and fin: "map_of (words_to_hypotheses_and_scores (snd (learning_step E word graph L))) word
                 = Some (fst (reward_hypotheses E (learning_factor L) (first # rest) (?pen, {})))"
        unfolding keys by blast
      have free': "no_isomorphic_pair E (map fst ?pen)" using free by (simp only: keys)
      have len': "\<forall>k \<in> set (map fst ?pen). len_pattern E k \<noteq> 0"
        using len by (simp only: keys)
      have "no_isomorphic_pair E
              (map fst (fst (reward_hypotheses E (learning_factor L) (first # rest) (?pen, {}))))"
        using free' sym len' sub by (rule reward_first_no_isomorphic_pair)
      then show ?thesis using fin by blast
    qed
  qed
qed

theorem isomorphism_dedup_witness:
  "hypothesis_object_to_reward node_engine [1, 2, 3]
       [([1, 2, 3, 4], 1 / 4), ([3, 2, 1], 1 / 4), ([5], 1 / 4)]
     \<in> set (map fst [([1, 2, 3, 4], 1 / 4 :: real), ([3, 2, 1], 1 / 4), ([5 :: nat], 1 / 4)])
   \<and> map fst (fst (reward_hypotheses node_engine (1 / 2) [[1, 2, 3]]
          ([([1, 2, 3, 4], 1 / 4), ([3, 2, 1], 1 / 4), ([5], 1 / 4)], {})))
       = [[1, 2, 3, 4], [3, 2, 1], [5]]
   \<and> map_of (words_to_hypotheses_and_scores
               (snd (learning_step node_engine ''ball'' [1, 2, 3] three_hypotheses_learner))) ''ball''
       = Some [([1, 2, 3, 4], 1 / 4), ([3, 2, 1], 5 / 8), ([5], 1 / 4)]
   \<and> no_isomorphic_pair node_engine [[1, 2, 3, 4], [3, 2, 1], [5]]"
proof -
  let ?hyps = "[([1, 2, 3, 4], 1 / 2 :: real), ([3, 2, 1], 1 / 4), ([5 :: nat], 1 / 4)]"
  let ?d = "[([1, 2, 3, 4], 1 / 4 :: real), ([3, 2, 1], 1 / 4), ([5 :: nat], 1 / 4)]"
  have sym: "\<forall>a b. check_isomorphism node_engine a b \<longrightarrow> check_isomorphism node_engine b a"
    by (simp add: node_engine_def)
  have len: "\<forall>k \<in> set (map fst ?hyps). len_pattern node_engine k \<noteq> 0"
    by (simp add: node_engine_def)
  have lend: "\<forall>k \<in> set (map fst ?d). len_pattern node_engine k \<noteq> 0"
    by (simp add: node_engine_def)
  have iso: "\<exists>c \<in> set (map fst ?d). check_isomorphism node_engine [1, 2, 3] c"
    by (auto simp add: node_engine_def)
  have free: "no_isomorphic_pair node_engine (map fst ?hyps)"
    by code_simp
  note t = isomorphism_dedup [OF three_hypotheses_table three_hypotheses_leading sym len,
             of ?d "[1, 2, 3]" "1 / 2" "[1, 2, 3]"]
  have A: "hypothesis_object_to_reward node_engine [1, 2, 3] ?d \<in> set (map fst ?d)"
    and B: "map fst (fst (reward_hypotheses node_engine (1 / 2) [[1, 2, 3]] (?d, {})))
              = map fst ?d"
    using t lend iso by blast+
  obtain final where
    f: "map_of (words_to_hypotheses_and_scores
          (snd (learning_step node_engine ''ball'' [1, 2, 3] three_hypotheses_learner))) ''ball''
        = Some final"
    and nf: "no_isomorphic_pair node_engine (map fst final)"
    using t free by blast
  have fin: "final = [([1, 2, 3, 4], 1 / 4), ([3, 2, 1], 5 / 8), ([5], 1 / 4)]"
    using f three_hypotheses_partial_step by simp
  have C: "no_isomorphic_pair node_engine [[1, 2, 3, 4], [3, 2, 1], [5]]"
    using nf unfolding fin by simp
  show ?thesis using A B C three_hypotheses_partial_step by simp
qed

subsection \<open>The hypotheses rewarded after a disconfirmation\<close>

text \<open>The loop of lines 318 to 332 keeps exactly the keys of the word's dictionary
  whose match ratio against the chosen object is above the threshold.\<close>

lemma hypotheses_matching_object_member:
  "hypotheses_matching_object E thr obj keys = (Returns hs, n) \<Longrightarrow>
     h \<in> set hs \<longleftrightarrow>
       h \<in> set keys \<and> (\<exists>r. match_ratio E (compute_match_ratio E h obj) = Returns r \<and> thr < r)"
proof (induction keys arbitrary: hs n)
  case Nil
  then show ?case by auto
next
  case (Cons k keys)
  then show ?case
    by (fastforce split: result.splits prod.splits if_splits)
qed







subsection \<open>\<open>observe\<close> on a perception it cannot handle\<close>

text \<open>
  Claim C8, as amended. If the perception does not have exactly one frame, or its
  frame is not a \<open>DevelopmentalPrimitivePerceptionFrame\<close>, \<open>observe\<close> raises
  \<open>RuntimeError\<close> and leaves the learner as it was, the hypothesis table, the lexicon,
  the words' observation counts, the generator and the debug counter included,
  except that \<open>observation_num\<close> has been increased by one.
\<close>

theorem observe_contract_violation:
  assumes "length frames \<noteq> 1 \<or> frames ! 0 = OtherPerceptionFrame"
  shows "observe E (frames, description) L
           = (Raises RuntimeError, L\<lparr>observation_num := observation_num L + 1\<rparr>)"
proof (cases frames)
  case Nil
  then show ?thesis by (simp add: observe_def)
next
  case (Cons x xs)
  show ?thesis
  proof (cases xs)
    case Nil
    then have "x = OtherPerceptionFrame" using assms Cons by simp
    then show ?thesis using Cons Nil by (simp add: observe_def)
  next
    case (Cons y ys)
    then show ?thesis using \<open>frames = x # xs\<close> by (cases x) (simp_all add: observe_def)
  qed
qed

theorem observe_contract_violation_witness:
  "length [DevelopmentalPrimitivePerceptionFrame [1 :: nat], DevelopmentalPrimitivePerceptionFrame [2]] \<noteq> 1
   \<and> observe node_engine
         ([DevelopmentalPrimitivePerceptionFrame [1], DevelopmentalPrimitivePerceptionFrame [2]],
          [''ball'']) ball_learner
       = (Raises RuntimeError, ball_learner\<lparr>observation_num := observation_num ball_learner + 1\<rparr>)
   \<and> observe node_engine ([OtherPerceptionFrame], [''ball'']) ball_learner
       = (Raises RuntimeError, ball_learner\<lparr>observation_num := observation_num ball_learner + 1\<rparr>)"
  using observe_contract_violation
          [of "[DevelopmentalPrimitivePerceptionFrame [1 :: nat], DevelopmentalPrimitivePerceptionFrame [2]]"
              node_engine "[''ball'']" ball_learner]
        observe_contract_violation
          [of "[OtherPerceptionFrame :: nat list frame]" node_engine "[''ball'']" ball_learner]
  by simp

text \<open>The claim as stated, that no learner state changes before the check, fails:
  on a perception of two frames \<open>observe\<close> raises, and \<open>observation_num\<close> has gone from
  0 to 1.\<close>

theorem observe_mutates_before_check:
  "fst (observe node_engine
         ([DevelopmentalPrimitivePerceptionFrame [1], DevelopmentalPrimitivePerceptionFrame [2]],
          [''ball'']) ball_learner) = Raises RuntimeError
   \<and> observation_num ball_learner = 0
   \<and> observation_num (snd (observe node_engine
         ([DevelopmentalPrimitivePerceptionFrame [1], DevelopmentalPrimitivePerceptionFrame [2]],
          [''ball'']) ball_learner)) = 1
   \<and> snd (observe node_engine
         ([DevelopmentalPrimitivePerceptionFrame [1], DevelopmentalPrimitivePerceptionFrame [2]],
          [''ball'']) ball_learner) \<noteq> ball_learner"
  by (simp add: observe_def ball_learner_def test_learner_def new_learner_def)

subsection \<open>What a run preserves\<close>

lemma keys_update: "fst ` set (AList.update k v al) = insert k (fst ` set al)"
  by (simp add: dom_update)

lemma keys_delete: "fst ` set (AList.delete k al) = fst ` set al - {k}"
  by (induction al) auto

lemma set_hypotheses_frame:
  "lexicon (set_hypotheses word hyps L) = lexicon L"
  "words_to_number_of_observations (set_hypotheses word hyps L)
     = words_to_number_of_observations L"
  "fst ` set (words_to_hypotheses_and_scores (set_hypotheses word hyps L))
     = insert word (fst ` set (words_to_hypotheses_and_scores L))"
  by (simp_all add: set_hypotheses_def keys_update)

lemma learning_step_frame:
  "lexicon (snd (learning_step E word graph L)) = lexicon L
   \<and> words_to_number_of_observations (snd (learning_step E word graph L))
       = words_to_number_of_observations L
   \<and> fst ` set (words_to_hypotheses_and_scores (snd (learning_step E word graph L)))
       = fst ` set (words_to_hypotheses_and_scores L)"
proof (cases "map_of (words_to_hypotheses_and_scores L) word")
  case None
  then show ?thesis by (simp add: learning_step_def)
next
  case (Some hyps)
  then have w: "word \<in> fst ` set (words_to_hypotheses_and_scores L)"
    by (metis map_of_eq_None_iff option.distinct(1))
  show ?thesis
  proof (cases "leading_entry hyps")
    case None
    then show ?thesis using Some by (simp add: learning_step_def)
  next
    case (Some entry)
    obtain leading old where entry: "entry = (leading, old)" by (cases entry)
    note lead = Some [unfolded entry]
    show ?thesis
    proof (cases "matched_exactly (compute_match_ratio E leading graph)
                  \<and> truthy E (matching_subgraph (compute_match_ratio E leading graph))")
      case True
      then have c1: "matched_exactly (compute_match_ratio E leading graph)"
        and c2: "truthy E (matching_subgraph (compute_match_ratio E leading graph))"
        by simp_all
      show ?thesis
        using w
        by (simp add: learning_step_confirmed [OF \<open>map_of _ word = Some hyps\<close> lead c1 c2]
              set_hypotheses_frame insert_absorb)
    next
      case False
      show ?thesis
        using w
        by (simp add: learning_step_disconfirmed [OF \<open>map_of _ word = Some hyps\<close> lead False]
              set_hypotheses_frame insert_absorb split: prod.splits result.splits)
    qed
  qed
qed

lemma initialization_step_frame:
  "lexicon (snd (initialization_step E word graph L)) = lexicon L
   \<and> words_to_number_of_observations (snd (initialization_step E word graph L))
       = words_to_number_of_observations L
   \<and> fst ` set (words_to_hypotheses_and_scores (snd (initialization_step E word graph L)))
       \<subseteq> insert word (fst ` set (words_to_hypotheses_and_scores L))"
  by (auto simp add: initialization_step_def Let_def keys_update split: list.splits)

lemma lexicon_step_cases:
  "snd (lexicon_step E word L) = L
   \<or> (\<exists>pattern times.
         map_of (words_to_number_of_observations L) word = Some times \<and> 5 < times
       \<and> snd (lexicon_step E word L)
           = L\<lparr>words_to_hypotheses_and_scores :=
                 AList.delete word (words_to_hypotheses_and_scores L),
               lexicon := AList.update word pattern (lexicon L)\<rparr>)"
  by (auto simp: lexicon_step_def split: option.splits prod.splits)

lemma count_observation_frame:
  "lexicon (count_observation word L) = lexicon L"
  "words_to_hypotheses_and_scores (count_observation word L) = words_to_hypotheses_and_scores L"
  by (simp_all add: count_observation_def)

lemma count_observation_grows:
  "map_of (words_to_number_of_observations L) w = Some n \<Longrightarrow> 5 < n \<Longrightarrow>
     \<exists>m. map_of (words_to_number_of_observations (count_observation word L)) w = Some m
         \<and> 5 < m"
  by (auto simp: count_observation_def update_conv' split: option.splits)

lemma lexicon_step_disjoint:
  assumes "disjoint_tables L"
  shows "disjoint_tables (snd (lexicon_step E word L))"
  using lexicon_step_cases [of E word L]
proof (elim disjE exE conjE)
  assume "snd (lexicon_step E word L) = L"
  then show ?thesis using assms by simp
next
  fix pattern times
  assume eq: "snd (lexicon_step E word L)
           = L\<lparr>words_to_hypotheses_and_scores :=
                 AList.delete word (words_to_hypotheses_and_scores L),
               lexicon := AList.update word pattern (lexicon L)\<rparr>"
  have "(fst ` set (words_to_hypotheses_and_scores L) - {word})
          \<inter> insert word (fst ` set (lexicon L)) = {}"
    using assms unfolding disjoint_tables_def by blast
  then show ?thesis unfolding eq disjoint_tables_def by (simp add: keys_update keys_delete)
qed

lemma lexicon_step_after_six:
  assumes "lexicalized_after_six L"
  shows "lexicalized_after_six (snd (lexicon_step E word L))"
  using lexicon_step_cases [of E word L]
proof (elim disjE exE conjE)
  assume "snd (lexicon_step E word L) = L"
  then show ?thesis using assms by simp
next
  fix pattern times
  assume t: "map_of (words_to_number_of_observations L) word = Some times" "5 < times"
    and eq: "snd (lexicon_step E word L)
           = L\<lparr>words_to_hypotheses_and_scores :=
                 AList.delete word (words_to_hypotheses_and_scores L),
               lexicon := AList.update word pattern (lexicon L)\<rparr>"
  have "\<forall>w \<in> insert word (fst ` set (lexicon L)).
          \<exists>n. map_of (words_to_number_of_observations L) w = Some n \<and> 5 < n"
    using assms t unfolding lexicalized_after_six_def by blast
  then show ?thesis unfolding eq lexicalized_after_six_def by (simp add: keys_update)
qed

lemma learn_word_cases:
  "snd (learn_word E graph word L) = L
   \<or> snd (learn_word E graph word L) = count_observation word L
   \<or> (word \<notin> fst ` set (lexicon (count_observation word L))
      \<and> snd (learn_word E graph word L)
          = snd (initialization_step E word graph (count_observation word L)))
   \<or> snd (learn_word E graph word L)
        = snd (learning_step E word graph (count_observation word L))
   \<or> snd (learn_word E graph word L)
        = snd (lexicon_step E word (snd (learning_step E word graph (count_observation word L))))"
  by (simp add: learn_word_def Let_def split: prod.splits result.splits)

lemma learn_word_disjoint:
  assumes "disjoint_tables L"
  shows "disjoint_tables (snd (learn_word E graph word L))"
proof -
  let ?L1 = "count_observation word L"
  have L1: "disjoint_tables ?L1"
    using assms by (simp add: disjoint_tables_def count_observation_frame)
  have init: "disjoint_tables (snd (initialization_step E word graph ?L1))"
    if w: "word \<notin> fst ` set (lexicon ?L1)"
  proof -
    have a: "lexicon (snd (initialization_step E word graph ?L1)) = lexicon ?L1"
      and b: "fst ` set (words_to_hypotheses_and_scores
                           (snd (initialization_step E word graph ?L1)))
                \<subseteq> insert word (fst ` set (words_to_hypotheses_and_scores ?L1))"
      using initialization_step_frame [of E word graph ?L1] by blast+
    have c: "fst ` set (words_to_hypotheses_and_scores ?L1) \<inter> fst ` set (lexicon ?L1) = {}"
      using L1 unfolding disjoint_tables_def .
    show ?thesis unfolding disjoint_tables_def a using b c w by blast
  qed
  have learn: "disjoint_tables (snd (learning_step E word graph ?L1))"
    using L1 learning_step_frame [of E word graph ?L1]
    unfolding disjoint_tables_def by simp
  have lex: "disjoint_tables (snd (lexicon_step E word (snd (learning_step E word graph ?L1))))"
    using learn by (rule lexicon_step_disjoint)
  show ?thesis
    using learn_word_cases [of E graph word L] assms L1 init learn lex by auto
qed

lemma learn_word_after_six:
  assumes "lexicalized_after_six L"
  shows "lexicalized_after_six (snd (learn_word E graph word L))"
proof -
  let ?L1 = "count_observation word L"
  have L1: "lexicalized_after_six ?L1"
    unfolding lexicalized_after_six_def count_observation_frame
  proof
    fix w
    assume "w \<in> fst ` set (lexicon L)"
    then obtain n where "map_of (words_to_number_of_observations L) w = Some n" "5 < n"
      using assms unfolding lexicalized_after_six_def by blast
    then show "\<exists>m. map_of (words_to_number_of_observations ?L1) w = Some m \<and> 5 < m"
      by (rule count_observation_grows)
  qed
  have init: "lexicalized_after_six (snd (initialization_step E word graph ?L1))"
    using L1 initialization_step_frame [of E word graph ?L1]
    unfolding lexicalized_after_six_def by simp
  have learn: "lexicalized_after_six (snd (learning_step E word graph ?L1))"
    using L1 learning_step_frame [of E word graph ?L1]
    unfolding lexicalized_after_six_def by simp
  have lex: "lexicalized_after_six
               (snd (lexicon_step E word (snd (learning_step E word graph ?L1))))"
    using learn by (rule lexicon_step_after_six)
  show ?thesis
    using learn_word_cases [of E graph word L] assms L1 init learn lex by auto
qed

lemma learn_with_pursuit_invariants:
  "disjoint_tables L \<Longrightarrow> disjoint_tables (snd (learn_with_pursuit E graph description L))"
  "lexicalized_after_six L
     \<Longrightarrow> lexicalized_after_six (snd (learn_with_pursuit E graph description L))"
proof (induction description arbitrary: L)
  case Nil
  { case 1 then show ?case by simp }
  { case 2 then show ?case by simp }
next
  case (Cons word description)
  { case 1
    obtain res L' where lw: "learn_word E graph word L = (res, L')"
      by (cases "learn_word E graph word L")
    have "disjoint_tables L'" using learn_word_disjoint [OF 1, of E graph word] lw by simp
    then show ?case using Cons.IH(1) [of L'] lw by (cases res) simp_all }
  { case 2
    obtain res L' where lw: "learn_word E graph word L = (res, L')"
      by (cases "learn_word E graph word L")
    have "lexicalized_after_six L'" using learn_word_after_six [OF 2, of E graph word] lw by simp
    then show ?case using Cons.IH(2) [of L'] lw by (cases res) simp_all }
qed

lemma observe_invariants:
  "disjoint_tables L \<Longrightarrow> disjoint_tables (snd (observe E learning_example L))"
  "lexicalized_after_six L \<Longrightarrow> lexicalized_after_six (snd (observe E learning_example L))"
proof -
  let ?L1 = "L\<lparr>observation_num := observation_num L + 1\<rparr>"
  have d: "disjoint_tables ?L1 = disjoint_tables L"
    and s: "lexicalized_after_six ?L1 = lexicalized_after_six L"
    by (simp_all add: disjoint_tables_def lexicalized_after_six_def)
  have o: "snd (observe E learning_example L) = ?L1
           \<or> (\<exists>graph. snd (observe E learning_example L)
                 = snd (learn_with_pursuit E graph (snd learning_example) ?L1))"
    by (auto simp: observe_def Let_def split: list.splits frame.splits)
  show "disjoint_tables L \<Longrightarrow> disjoint_tables (snd (observe E learning_example L))"
    using o d learn_with_pursuit_invariants(1) [of ?L1 E] by auto
  show "lexicalized_after_six L \<Longrightarrow> lexicalized_after_six (snd (observe E learning_example L))"
    using o s learn_with_pursuit_invariants(2) [of ?L1 E] by auto
qed

lemma observe_all_invariants:
  "disjoint_tables L \<Longrightarrow> disjoint_tables (observe_all E examples L)"
  "lexicalized_after_six L \<Longrightarrow> lexicalized_after_six (observe_all E examples L)"
  by (induction examples arbitrary: L) (simp_all add: observe_invariants)

lemma new_learner_invariants:
  "disjoint_tables (new_learner s r g c t)" "lexicalized_after_six (new_learner s r g c t)"
  by (simp_all add: disjoint_tables_def lexicalized_after_six_def new_learner_def)

lemma lexicon_step_result:
  assumes tbl: "map_of (words_to_hypotheses_and_scores L) word = Some hyps"
    and lead: "leading_entry hyps = Some (pattern, s)"
    and cnt: "map_of (words_to_number_of_observations L) word = Some seen"
    and den: "smoothed_total E (smoothing_parameter L) hyps \<noteq> 0"
  shows "lexicon_step E word L =
           (Returns (),
            if probability_of_meaning_given_word E (smoothing_parameter L) s hyps
                 > lexicon_entry_threshold L \<and> seen > 5
            then L\<lparr>words_to_hypotheses_and_scores :=
                     AList.delete word (words_to_hypotheses_and_scores L),
                   lexicon := AList.update word pattern (lexicon L)\<rparr>
            else L)"
  using assms by (simp add: lexicon_step_def leading_hypothesis_for_def)

lemma seven_observations:
  "lexicon (observe_all node_engine
      (replicate 7 ([DevelopmentalPrimitivePerceptionFrame [1, 2]], [''a'', ''ball'']))
      test_learner) = [(''ball'', [1])]
   \<and> words_to_hypotheses_and_scores (observe_all node_engine
      (replicate 7 ([DevelopmentalPrimitivePerceptionFrame [1, 2]], [''a'', ''ball'']))
      test_learner) = []
   \<and> words_to_number_of_observations (observe_all node_engine
      (replicate 7 ([DevelopmentalPrimitivePerceptionFrame [1, 2]], [''a'', ''ball'']))
      test_learner) = [(''ball'', 7)]"
  by code_simp

text \<open>
  Claim C3. In the learner reached from a new one by any sequence of \<open>observe\<close>
  calls, no word is a key of both the hypothesis table and the lexicon. Each
  \<open>observe\<close> call and each \<open>lexicon_step\<close> keeps the two key sets disjoint, whatever
  learner it starts from; and processing a word that is in the lexicon leaves the
  hypothesis table as it is.
\<close>

theorem hypothesis_table_and_lexicon_disjoint:
  "set (map fst (words_to_hypotheses_and_scores
                   (observe_all E examples (new_learner sm r g ct et))))
     \<inter> set (map fst (lexicon (observe_all E examples (new_learner sm r g ct et)))) = {}
   \<and> (disjoint_tables L \<longrightarrow> disjoint_tables (snd (observe E learning_example L)))
   \<and> (disjoint_tables L \<longrightarrow> disjoint_tables (snd (lexicon_step E word L)))
   \<and> (word \<in> set (map fst (lexicon L)) \<longrightarrow>
        words_to_hypotheses_and_scores (snd (learn_word E graph word L))
          = words_to_hypotheses_and_scores L)"
proof (intro conjI impI)
  have "disjoint_tables (observe_all E examples (new_learner sm r g ct et))"
    using new_learner_invariants(1) by (rule observe_all_invariants(1))
  then show "set (map fst (words_to_hypotheses_and_scores
                   (observe_all E examples (new_learner sm r g ct et))))
     \<inter> set (map fst (lexicon (observe_all E examples (new_learner sm r g ct et)))) = {}"
    by (simp add: disjoint_tables_def)
next
  assume "disjoint_tables L"
  then show "disjoint_tables (snd (observe E learning_example L))"
    by (rule observe_invariants(1))
next
  assume "disjoint_tables L"
  then show "disjoint_tables (snd (lexicon_step E word L))"
    by (rule lexicon_step_disjoint)
next
  assume "word \<in> set (map fst (lexicon L))"
  then show "words_to_hypotheses_and_scores (snd (learn_word E graph word L))
          = words_to_hypotheses_and_scores L"
    by (simp add: learn_word_def Let_def count_observation_frame)
qed

theorem hypothesis_table_and_lexicon_disjoint_witness:
  "set (map fst (words_to_hypotheses_and_scores (observe_all node_engine
      (replicate 5 ([DevelopmentalPrimitivePerceptionFrame [1, 2]], [''a'', ''ball'']))
      test_learner)))
     \<inter> set (map fst (lexicon (observe_all node_engine
      (replicate 5 ([DevelopmentalPrimitivePerceptionFrame [1, 2]], [''a'', ''ball'']))
      test_learner))) = {}
   \<and> disjoint_tables seen_learner
   \<and> disjoint_tables (snd (lexicon_step node_engine ''ball'' seen_learner))
   \<and> disjoint_tables (snd (observe node_engine
        ([DevelopmentalPrimitivePerceptionFrame [1, 2]], [''a'', ''ball'']) seen_learner))
   \<and> lexicon (snd (observe node_engine
        ([DevelopmentalPrimitivePerceptionFrame [1, 2]], [''a'', ''ball'']) seen_learner))
       = [(''ball'', [1, 2])]
   \<and> words_to_hypotheses_and_scores (snd (observe node_engine
        ([DevelopmentalPrimitivePerceptionFrame [1, 2]], [''a'', ''ball'']) seen_learner))
       = []"
proof -
  have d: "disjoint_tables seen_learner" by code_simp
  note t = hypothesis_table_and_lexicon_disjoint
             [where E = node_engine and L = seen_learner and word = "''ball''"
                and graph = "[1, 2]"
                and learning_example = "([DevelopmentalPrimitivePerceptionFrame [1, 2]],
                                         [''a'', ''ball''])"
                and examples = "replicate 5 ([DevelopmentalPrimitivePerceptionFrame [1, 2]],
                                             [''a'', ''ball''])"
                and sm = "1 / 1000" and r = 0 and g = "1 / 2" and ct = "7 / 10" and et = "7 / 10",
              folded test_learner_def]
  have A: "set (map fst (words_to_hypotheses_and_scores (observe_all node_engine
      (replicate 5 ([DevelopmentalPrimitivePerceptionFrame [1, 2]], [''a'', ''ball'']))
      test_learner)))
     \<inter> set (map fst (lexicon (observe_all node_engine
      (replicate 5 ([DevelopmentalPrimitivePerceptionFrame [1, 2]], [''a'', ''ball'']))
      test_learner))) = {}"
    using t by blast
  have B: "disjoint_tables (snd (lexicon_step node_engine ''ball'' seen_learner))"
    and C: "disjoint_tables (snd (observe node_engine
        ([DevelopmentalPrimitivePerceptionFrame [1, 2]], [''a'', ''ball'']) seen_learner))"
    using t d by blast+
  have D: "lexicon (snd (observe node_engine
        ([DevelopmentalPrimitivePerceptionFrame [1, 2]], [''a'', ''ball'']) seen_learner))
       = [(''ball'', [1, 2])]
   \<and> words_to_hypotheses_and_scores (snd (observe node_engine
        ([DevelopmentalPrimitivePerceptionFrame [1, 2]], [''a'', ''ball'']) seen_learner))
       = []"
    by code_simp
  show ?thesis using A B C D d by (intro conjI) simp_all
qed

subsection \<open>\<open>describe\<close>\<close>

lemma map_of_functional:
  assumes "\<forall>v v'. (k, v) \<in> set xs \<and> (k, v') \<in> set xs \<longrightarrow> v = v'"
  shows "map_of xs k = Some v \<longleftrightarrow> (k, v) \<in> set xs"
proof
  assume "map_of xs k = Some v"
  then show "(k, v) \<in> set xs" by (rule map_of_SomeD)
next
  assume in_xs: "(k, v) \<in> set xs"
  then have "k \<in> fst ` set xs" by force
  then obtain v' where v': "map_of xs k = Some v'"
    by (metis map_of_eq_None_iff not_Some_eq)
  then have "(k, v') \<in> set xs" by (rule map_of_SomeD)
  then have "v = v'" using assms in_xs by blast
  then show "map_of xs k = Some v" using v' by simp
qed

lemma immutabledict_functional:
  assumes "\<forall>v v'. (k, v) \<in> set xs \<and> (k, v') \<in> set xs \<longrightarrow> v = v'"
  shows "immutabledict xs k = Some v \<longleftrightarrow> (k, v) \<in> set xs"
  using map_of_functional [of k "rev xs" v] assms by (simp add: immutabledict_def)

lemma set_lexicon_descriptions:
  "(d, c) \<in> set (lexicon_descriptions E graph L) \<longleftrightarrow>
     c = 1 \<and> (\<exists>word p. (word, p) \<in> set (lexicon L) \<and> matcher_matches E p graph
                       \<and> d = [''a'', word])"
  by (auto simp: lexicon_descriptions_def)

lemma lexicon_descriptions_empty:
  "lexicon_descriptions E graph L = [] \<longleftrightarrow>
     \<not> (\<exists>word p. (word, p) \<in> set (lexicon L) \<and> matcher_matches E p graph)"
  by (auto simp: lexicon_descriptions_def filter_empty_conv)

lemma hypothesis_description_of_word:
  "(d, c) \<in> set (case leading_hypothesis_for L word of
                    None \<Rightarrow> []
                  | Some (leading_hypothesis, score) \<Rightarrow>
                      if matcher_matches E leading_hypothesis graph
                      then [([''a'', word], score)] else [])
   \<longleftrightarrow> (\<exists>h. leading_hypothesis_for L word = Some (h, c)
            \<and> matcher_matches E h graph \<and> d = [''a'', word])"
proof (cases "leading_hypothesis_for L word")
  case None
  then show ?thesis by simp
next
  case (Some entry)
  obtain h s where "entry = (h, s)" by (cases entry)
  then show ?thesis using Some by auto
qed

lemma set_hypothesis_descriptions:
  "(d, c) \<in> set (hypothesis_descriptions E graph L) \<longleftrightarrow>
     (\<exists>word h. word \<in> set (map fst (words_to_hypotheses_and_scores L))
              \<and> leading_hypothesis_for L word = Some (h, c)
              \<and> matcher_matches E h graph \<and> d = [''a'', word])"
proof
  assume "(d, c) \<in> set (hypothesis_descriptions E graph L)"
  then obtain word where w: "word \<in> set (map fst (words_to_hypotheses_and_scores L))"
    and dc: "(d, c) \<in> set (case leading_hypothesis_for L word of
                    None \<Rightarrow> []
                  | Some (leading_hypothesis, score) \<Rightarrow>
                      if matcher_matches E leading_hypothesis graph
                      then [([''a'', word], score)] else [])"
    unfolding hypothesis_descriptions_def by auto
  from dc obtain h where "leading_hypothesis_for L word = Some (h, c)"
    "matcher_matches E h graph" "d = [''a'', word]"
    unfolding hypothesis_description_of_word by blast
  then show "\<exists>word h. word \<in> set (map fst (words_to_hypotheses_and_scores L))
              \<and> leading_hypothesis_for L word = Some (h, c)
              \<and> matcher_matches E h graph \<and> d = [''a'', word]"
    using w by blast
next
  assume "\<exists>word h. word \<in> set (map fst (words_to_hypotheses_and_scores L))
              \<and> leading_hypothesis_for L word = Some (h, c)
              \<and> matcher_matches E h graph \<and> d = [''a'', word]"
  then obtain word h where w: "word \<in> set (map fst (words_to_hypotheses_and_scores L))"
    and l: "leading_hypothesis_for L word = Some (h, c)"
    and m: "matcher_matches E h graph" and d: "d = [''a'', word]"
    by blast
  have "(d, c) \<in> set (case leading_hypothesis_for L word of
                    None \<Rightarrow> []
                  | Some (leading_hypothesis, score) \<Rightarrow>
                      if matcher_matches E leading_hypothesis graph
                      then [([''a'', word], score)] else [])"
    using l m d by simp
  then show "(d, c) \<in> set (hypothesis_descriptions E graph L)"
    unfolding hypothesis_descriptions_def using w by auto
qed

lemma leading_hypothesis_for_iff:
  "leading_hypothesis_for L word = Some (h, c) \<longleftrightarrow>
     (\<exists>before after.
        map_of (words_to_hypotheses_and_scores L) word = Some (before @ (h, c) # after)
      \<and> (\<forall>e \<in> set before. snd e < c)
      \<and> (\<forall>e \<in> set after. snd e \<le> c))"
proof (cases "map_of (words_to_hypotheses_and_scores L) word")
  case None
  then show ?thesis by (simp add: leading_hypothesis_for_def)
next
  case (Some hyps)
  then show ?thesis
    using leading_entry_iff [of hyps "(h, c)"] by (simp add: leading_hypothesis_for_def)
qed

lemma lexicalized_learner_simps:
  "lexicon lexicalized_learner = [(''ball'', [1, 2])]"
  "words_to_hypotheses_and_scores lexicalized_learner
     = [(''box'', [([3], 1 / 4), ([3, 4], 1 / 2)]), (''cup'', [([7], 1 / 2), ([8], 1 / 2)])]"
  "leading_hypothesis_for lexicalized_learner w
     = (if w = ''box'' then Some ([3, 4], 1 / 2)
        else if w = ''cup'' then Some ([7], 1 / 2) else None)"
  by (simp_all add: lexicalized_learner_def leading_hypothesis_for_def leading_entry_def)

lemma node_engine_simps:
  "matcher_matches node_engine p g = (set p \<subseteq> set g)"
  "graph_without_learner node_engine f = f"
  by (simp_all add: node_engine_def)

lemma describe_cases:
  assumes "frames = [DevelopmentalPrimitivePerceptionFrame f]"
    and "graph = graph_without_learner E f"
  shows "\<exists>m. describe E frames L = Returns m
           \<and> ((\<exists>word p. (word, p) \<in> set (lexicon L) \<and> matcher_matches E p graph) \<longrightarrow>
                (\<forall>d c. m d = Some c \<longleftrightarrow>
                   c = 1 \<and> (\<exists>word p. (word, p) \<in> set (lexicon L)
                                     \<and> matcher_matches E p graph \<and> d = [''a'', word])))
           \<and> (\<not> (\<exists>word p. (word, p) \<in> set (lexicon L) \<and> matcher_matches E p graph) \<longrightarrow>
                (\<forall>d c. m d = Some c \<longleftrightarrow>
                   (\<exists>word h. word \<in> set (map fst (words_to_hypotheses_and_scores L))
                            \<and> leading_hypothesis_for L word = Some (h, c)
                            \<and> matcher_matches E h graph \<and> d = [''a'', word])))
           \<and> (\<not> (\<exists>word p. (word, p) \<in> set (lexicon L) \<and> matcher_matches E p graph)
              \<and> \<not> (\<exists>word h c. word \<in> set (map fst (words_to_hypotheses_and_scores L))
                            \<and> leading_hypothesis_for L word = Some (h, c)
                            \<and> matcher_matches E h graph)
              \<longrightarrow> m = Map.empty)"
proof -
  let ?lex = "lexicon_descriptions E graph L"
  let ?hyp = "hypothesis_descriptions E graph L"
  let ?m = "immutabledict (if ?lex = [] then ?hyp else ?lex)"
  have ret: "describe E frames L = Returns ?m"
    using assms by (simp add: describe_def Let_def)
  have lexf: "\<forall>v v'. (d, v) \<in> set ?lex \<and> (d, v') \<in> set ?lex \<longrightarrow> v = v'" for d
    by (simp add: set_lexicon_descriptions)
  have hypf: "\<forall>v v'. (d, v) \<in> set ?hyp \<and> (d, v') \<in> set ?hyp \<longrightarrow> v = v'" for d
    by (auto simp: set_hypothesis_descriptions)
  have one: "\<forall>d c. ?m d = Some c \<longleftrightarrow>
                   c = 1 \<and> (\<exists>word p. (word, p) \<in> set (lexicon L)
                                     \<and> matcher_matches E p graph \<and> d = [''a'', word])"
    if "\<exists>word p. (word, p) \<in> set (lexicon L) \<and> matcher_matches E p graph"
  proof -
    have "?lex \<noteq> []" using that by (simp add: lexicon_descriptions_empty)
    then have m: "?m = immutabledict ?lex" by simp
    show ?thesis
    proof (intro allI)
      fix d c
      have "immutabledict ?lex d = Some c \<longleftrightarrow> (d, c) \<in> set ?lex"
        using lexf [of d] by (rule immutabledict_functional)
      then show "?m d = Some c \<longleftrightarrow>
                   c = 1 \<and> (\<exists>word p. (word, p) \<in> set (lexicon L)
                                     \<and> matcher_matches E p graph \<and> d = [''a'', word])"
        unfolding m set_lexicon_descriptions .
    qed
  qed
  have two: "\<forall>d c. ?m d = Some c \<longleftrightarrow>
                   (\<exists>word h. word \<in> set (map fst (words_to_hypotheses_and_scores L))
                            \<and> leading_hypothesis_for L word = Some (h, c)
                            \<and> matcher_matches E h graph \<and> d = [''a'', word])"
    if "\<not> (\<exists>word p. (word, p) \<in> set (lexicon L) \<and> matcher_matches E p graph)"
  proof -
    have "?lex = []" using that by (simp add: lexicon_descriptions_empty)
    then have m: "?m = immutabledict ?hyp" by simp
    show ?thesis
    proof (intro allI)
      fix d c
      have "immutabledict ?hyp d = Some c \<longleftrightarrow> (d, c) \<in> set ?hyp"
        using hypf [of d] by (rule immutabledict_functional)
      then show "?m d = Some c \<longleftrightarrow>
                   (\<exists>word h. word \<in> set (map fst (words_to_hypotheses_and_scores L))
                            \<and> leading_hypothesis_for L word = Some (h, c)
                            \<and> matcher_matches E h graph \<and> d = [''a'', word])"
        unfolding m set_hypothesis_descriptions .
    qed
  qed
  have three: "?m = Map.empty"
    if "\<not> (\<exists>word p. (word, p) \<in> set (lexicon L) \<and> matcher_matches E p graph)
        \<and> \<not> (\<exists>word h c. word \<in> set (map fst (words_to_hypotheses_and_scores L))
                            \<and> leading_hypothesis_for L word = Some (h, c)
                            \<and> matcher_matches E h graph)"
  proof
    fix d
    have no: "\<not> (\<exists>word p. (word, p) \<in> set (lexicon L) \<and> matcher_matches E p graph)"
      and nh: "\<not> (\<exists>word h c. word \<in> set (map fst (words_to_hypotheses_and_scores L))
                            \<and> leading_hypothesis_for L word = Some (h, c)
                            \<and> matcher_matches E h graph)"
      using that by blast+
    have "?m d \<noteq> Some c" for c
    proof
      assume "?m d = Some c"
      then have "\<exists>word h. word \<in> set (map fst (words_to_hypotheses_and_scores L))
                            \<and> leading_hypothesis_for L word = Some (h, c)
                            \<and> matcher_matches E h graph \<and> d = [''a'', word]"
        using two [OF no] by blast
      then show False using nh by blast
    qed
    then show "?m d = None" by (cases "?m d") auto
  qed
  show ?thesis
  proof (intro exI [of _ ?m] conjI impI)
    show "describe E frames L = Returns ?m" by (rule ret)
  qed (erule one, erule two, erule three)
qed


text \<open>
  Claim C9. On a perception of one frame of the supported kind, \<open>describe\<close> returns a
  mapping \<open>m\<close> and does not raise. If some lexicon entry's pattern matches the scene,
  \<open>m\<close> holds exactly the descriptions \<open>("a", word)\<close> of the lexicon entries whose
  pattern matches, each with confidence 1, and no hypothesized word. If no lexicon
  entry matches, \<open>m\<close> holds exactly the descriptions of the words of the hypothesis
  table whose leading hypothesis matches the scene, each with that word's leading
  score; the leading hypothesis \<open>h\<close> and its score \<open>c\<close> are the first entry of
  maximal score of the word's dictionary \<open>before @ (h, c) # after\<close>. If nothing
  matches at all, \<open>m\<close> is empty.
\<close>

theorem describe_lexicon_first:
  assumes "frames = [DevelopmentalPrimitivePerceptionFrame f]"
    and "graph = graph_without_learner E f"
  shows "\<exists>m. describe E frames L = Returns m
           \<and> ((\<exists>word p. (word, p) \<in> set (lexicon L) \<and> matcher_matches E p graph) \<longrightarrow>
                (\<forall>d c. m d = Some c \<longleftrightarrow>
                   c = 1 \<and> (\<exists>word p. (word, p) \<in> set (lexicon L)
                                     \<and> matcher_matches E p graph \<and> d = [''a'', word])))
           \<and> (\<not> (\<exists>word p. (word, p) \<in> set (lexicon L) \<and> matcher_matches E p graph) \<longrightarrow>
                (\<forall>d c. m d = Some c \<longleftrightarrow>
                   (\<exists>word h. word \<in> set (map fst (words_to_hypotheses_and_scores L))
                            \<and> (\<exists>before after.
                                  map_of (words_to_hypotheses_and_scores L) word
                                    = Some (before @ (h, c) # after)
                                \<and> (\<forall>e \<in> set before. snd e < c)
                                \<and> (\<forall>e \<in> set after. snd e \<le> c))
                            \<and> matcher_matches E h graph \<and> d = [''a'', word])))
           \<and> (\<not> (\<exists>word p. (word, p) \<in> set (lexicon L) \<and> matcher_matches E p graph)
              \<and> \<not> (\<exists>word h c. word \<in> set (map fst (words_to_hypotheses_and_scores L))
                            \<and> (\<exists>before after.
                                  map_of (words_to_hypotheses_and_scores L) word
                                    = Some (before @ (h, c) # after)
                                \<and> (\<forall>e \<in> set before. snd e < c)
                                \<and> (\<forall>e \<in> set after. snd e \<le> c))
                            \<and> matcher_matches E h graph)
              \<longrightarrow> m = Map.empty)"
  using describe_cases [OF assms, of L] unfolding leading_hypothesis_for_iff .

theorem describe_lexicon_first_witness:
  "(\<exists>m. describe node_engine [DevelopmentalPrimitivePerceptionFrame [1, 2, 3, 4]]
           lexicalized_learner = Returns m
        \<and> m [''a'', ''ball''] = Some 1 \<and> m [''a'', ''box''] = None)
   \<and> (\<exists>m. describe node_engine [DevelopmentalPrimitivePerceptionFrame [3, 4]]
             lexicalized_learner = Returns m
          \<and> m [''a'', ''box''] = Some (1 / 2) \<and> m [''a'', ''ball''] = None)
   \<and> (\<exists>m. describe node_engine [DevelopmentalPrimitivePerceptionFrame [7, 8]]
             lexicalized_learner = Returns m
          \<and> m [''a'', ''cup''] = Some (1 / 2) \<and> m [''a'', ''box''] = None)
   \<and> describe node_engine [DevelopmentalPrimitivePerceptionFrame [3, 5]] lexicalized_learner
       = Returns Map.empty
   \<and> describe node_engine [DevelopmentalPrimitivePerceptionFrame [8]] lexicalized_learner
       = Returns Map.empty"
proof -
  note t = describe_lexicon_first
             [OF refl refl, where E = node_engine and L = lexicalized_learner,
              folded leading_hypothesis_for_iff]
  have "\<exists>m. describe node_engine [DevelopmentalPrimitivePerceptionFrame [1, 2, 3, 4]]
               lexicalized_learner = Returns m
            \<and> (\<forall>d c. m d = Some c \<longleftrightarrow>
                 c = 1 \<and> (\<exists>word p. (word, p) \<in> set (lexicon lexicalized_learner)
                    \<and> matcher_matches node_engine p
                        (graph_without_learner node_engine [1, 2, 3, 4])
                    \<and> d = [''a'', word]))"
    using t [of "[1, 2, 3, 4]"] by (simp add: lexicalized_learner_simps node_engine_simps)
  then obtain m1 where r1: "describe node_engine
                              [DevelopmentalPrimitivePerceptionFrame [1, 2, 3, 4]]
                              lexicalized_learner = Returns m1"
    and c1: "\<forall>d c. m1 d = Some c \<longleftrightarrow>
               c = 1 \<and> (\<exists>word p. (word, p) \<in> set (lexicon lexicalized_learner)
                    \<and> matcher_matches node_engine p
                        (graph_without_learner node_engine [1, 2, 3, 4])
                    \<and> d = [''a'', word])"
    by (elim exE conjE)
  have a1: "m1 [''a'', ''ball''] = Some 1"
    using c1 by (simp add: lexicalized_learner_simps node_engine_simps)
  have "m1 [''a'', ''box''] \<noteq> Some c" for c
    using c1 by (simp add: lexicalized_learner_simps node_engine_simps)
  then have b1: "m1 [''a'', ''box''] = None" by (cases "m1 [''a'', ''box'']") auto
  have c2: "\<exists>m. describe node_engine [DevelopmentalPrimitivePerceptionFrame g]
                 lexicalized_learner = Returns m
             \<and> (\<forall>d c. m d = Some c \<longleftrightarrow>
                  (\<exists>word h. word \<in> set (map fst (words_to_hypotheses_and_scores
                                                     lexicalized_learner))
                        \<and> leading_hypothesis_for lexicalized_learner word = Some (h, c)
                        \<and> matcher_matches node_engine h (graph_without_learner node_engine g)
                        \<and> d = [''a'', word]))"
    if "\<not> {1, 2} \<subseteq> set g" for g
    using t [of g] that
    by (simp add: lexicalized_learner_simps(1) node_engine_simps)
       (elim exE conjE, rule exI, erule conjI, assumption)
  have n2: "\<not> {1, 2} \<subseteq> set [3 :: nat, 4]" and n3: "\<not> {1, 2} \<subseteq> set [7 :: nat, 8]"
    by simp_all
  obtain m2 where r2: "describe node_engine [DevelopmentalPrimitivePerceptionFrame [3, 4]]
                         lexicalized_learner = Returns m2"
    and c2': "\<forall>d c. m2 d = Some c \<longleftrightarrow>
                  (\<exists>word h. word \<in> set (map fst (words_to_hypotheses_and_scores
                                                     lexicalized_learner))
                        \<and> leading_hypothesis_for lexicalized_learner word = Some (h, c)
                        \<and> matcher_matches node_engine h
                            (graph_without_learner node_engine [3, 4])
                        \<and> d = [''a'', word])"
    using c2 [OF n2] by (elim exE conjE)
  have a2: "m2 [''a'', ''box''] = Some (1 / 2)"
    using c2' by (simp add: lexicalized_learner_simps node_engine_simps)
  have "m2 [''a'', ''ball''] \<noteq> Some c" for c
    using c2' by (simp add: lexicalized_learner_simps node_engine_simps)
  then have b2: "m2 [''a'', ''ball''] = None" by (cases "m2 [''a'', ''ball'']") auto
  obtain m3 where r3: "describe node_engine [DevelopmentalPrimitivePerceptionFrame [7, 8]]
                         lexicalized_learner = Returns m3"
    and c3: "\<forall>d c. m3 d = Some c \<longleftrightarrow>
                  (\<exists>word h. word \<in> set (map fst (words_to_hypotheses_and_scores
                                                     lexicalized_learner))
                        \<and> leading_hypothesis_for lexicalized_learner word = Some (h, c)
                        \<and> matcher_matches node_engine h
                            (graph_without_learner node_engine [7, 8])
                        \<and> d = [''a'', word])"
    using c2 [OF n3] by (elim exE conjE)
  have a3: "m3 [''a'', ''cup''] = Some (1 / 2)"
    using c3 by (simp add: lexicalized_learner_simps node_engine_simps)
  have "m3 [''a'', ''box''] \<noteq> Some c" for c
    using c3 by (simp add: lexicalized_learner_simps node_engine_simps)
  then have b3: "m3 [''a'', ''box''] = None" by (cases "m3 [''a'', ''box'']") auto
  have empty: "describe node_engine [DevelopmentalPrimitivePerceptionFrame g]
                 lexicalized_learner = Returns Map.empty"
    if g: "g = [3, 5] \<or> g = [8]" for g
  proof -
    have "\<not> {1, 2} \<subseteq> set g" using g by auto
    from c2 [OF this] obtain m where r: "describe node_engine [DevelopmentalPrimitivePerceptionFrame g]
                              lexicalized_learner = Returns m"
      and c: "\<forall>d c. m d = Some c \<longleftrightarrow>
                  (\<exists>word h. word \<in> set (map fst (words_to_hypotheses_and_scores
                                                     lexicalized_learner))
                        \<and> leading_hypothesis_for lexicalized_learner word = Some (h, c)
                        \<and> matcher_matches node_engine h (graph_without_learner node_engine g)
                        \<and> d = [''a'', word])"
      by (elim exE conjE)
    have "m d \<noteq> Some c" for d c
      using c g by (auto simp add: lexicalized_learner_simps node_engine_simps)
    then have "m d = None" for d by (cases "m d") auto
    then have "m = Map.empty" by (intro ext)
    then show ?thesis using r by simp
  qed
  have r4: "describe node_engine [DevelopmentalPrimitivePerceptionFrame [3, 5]]
              lexicalized_learner = Returns Map.empty"
    by (rule empty) simp
  have r5: "describe node_engine [DevelopmentalPrimitivePerceptionFrame [8]]
              lexicalized_learner = Returns Map.empty"
    by (rule empty) simp
  show ?thesis using r1 a1 b1 r2 a2 b2 r3 a3 b3 r4 r5 by (intro conjI exI [of _ m1] exI [of _ m2] exI [of _ m3])
qed

subsection \<open>\<open>initialization_step\<close>\<close>

lemma set_association_scores:
  "set (association_scores E table m)
     = {s. \<exists>w hs h. (w, hs) \<in> set table \<and> (h, s) \<in> set hs \<and> check_isomorphism E h m}"
proof (intro set_eqI iffI)
  fix s
  assume "s \<in> set (association_scores E table m)"
  then obtain w hs where "(w, hs) \<in> set table"
    and "s \<in> set (map snd (filter (\<lambda>(h, s). check_isomorphism E h m) hs))"
    by (auto simp: association_scores_def)
  then obtain w hs h where "(w, hs) \<in> set table" "(h, s) \<in> set hs"
    "check_isomorphism E h m"
    by auto
  then show "s \<in> {s. \<exists>w hs h. (w, hs) \<in> set table \<and> (h, s) \<in> set hs
                      \<and> check_isomorphism E h m}"
    by blast
next
  fix s
  assume "s \<in> {s. \<exists>w hs h. (w, hs) \<in> set table \<and> (h, s) \<in> set hs
                      \<and> check_isomorphism E h m}"
  then obtain w hs h where t: "(w, hs) \<in> set table" and h: "(h, s) \<in> set hs"
    and iso: "check_isomorphism E h m"
    by blast
  have "s \<in> set (map snd (filter (\<lambda>(h, s). check_isomorphism E h m) hs))"
    using h iso by force
  then show "s \<in> set (association_scores E table m)"
    using t unfolding association_scores_def by force
qed

lemma max_association_score_Max:
  "max_association_score E table m = Max (insert 0 (set (association_scores E table m)))"
proof -
  obtain x xs where eq: "association_scores E table m @ [0] = x # xs"
    by (cases "association_scores E table m @ [0]") auto
  have "max_association_score E table m = fold max xs x"
    by (simp add: max_association_score_def eq)
  also have "\<dots> = Max (set (x # xs))" by (simp only: Max.set_eq_fold)
  also have "set (x # xs) = insert 0 (set (association_scores E table m))"
    unfolding eq [symmetric] by simp
  finally show ?thesis .
qed

lemma least_associated_split:
  assumes "least_associated E table xs (ph, Some v) = R"
  shows "(R = (ph, Some v) \<and> (\<forall>x \<in> set xs. v \<le> max_association_score E table x))
       \<or> (\<exists>pre c post.
             xs = pre @ c # post
           \<and> R = (c, Some (max_association_score E table c))
           \<and> max_association_score E table c < v
           \<and> (\<forall>y \<in> set pre. max_association_score E table c < max_association_score E table y)
           \<and> (\<forall>y \<in> set post. max_association_score E table c \<le> max_association_score E table y))"
  using assms
proof (induction xs arbitrary: ph v)
  case Nil
  then show ?case by simp
next
  case (Cons x xs)
  let ?f = "max_association_score E table"
  show ?case
  proof (cases "?f x < v")
    case True
    then have rec: "least_associated E table xs (x, Some (?f x)) = R"
      using Cons.prems by (simp add: Let_def)
    from Cons.IH [OF rec] show ?thesis
    proof (elim disjE exE conjE)
      assume R: "R = (x, Some (?f x))" and all: "\<forall>y \<in> set xs. ?f x \<le> ?f y"
      have "x # xs = [] @ x # xs \<and> R = (x, Some (?f x)) \<and> ?f x < v
            \<and> (\<forall>y \<in> set []. ?f x < ?f y) \<and> (\<forall>y \<in> set xs. ?f x \<le> ?f y)"
        using R all True by simp
      then show ?thesis by blast
    next
      fix pre c post
      assume xs: "xs = pre @ c # post" and R: "R = (c, Some (?f c))"
        and lt: "?f c < ?f x"
        and pre: "\<forall>y \<in> set pre. ?f c < ?f y" and post: "\<forall>y \<in> set post. ?f c \<le> ?f y"
      have "x # xs = (x # pre) @ c # post \<and> R = (c, Some (?f c)) \<and> ?f c < v
            \<and> (\<forall>y \<in> set (x # pre). ?f c < ?f y) \<and> (\<forall>y \<in> set post. ?f c \<le> ?f y)"
        using xs R lt pre post True by simp
      then show ?thesis by blast
    qed
  next
    case False
    then have rec: "least_associated E table xs (ph, Some v) = R"
      using Cons.prems by (simp add: Let_def)
    from Cons.IH [OF rec] show ?thesis
    proof (elim disjE exE conjE)
      assume R: "R = (ph, Some v)" and all: "\<forall>y \<in> set xs. v \<le> ?f y"
      then show ?thesis using False by simp
    next
      fix pre c post
      assume xs: "xs = pre @ c # post" and R: "R = (c, Some (?f c))"
        and lt: "?f c < v"
        and pre: "\<forall>y \<in> set pre. ?f c < ?f y" and post: "\<forall>y \<in> set post. ?f c \<le> ?f y"
      have "x # xs = (x # pre) @ c # post \<and> R = (c, Some (?f c)) \<and> ?f c < v
            \<and> (\<forall>y \<in> set (x # pre). ?f c < ?f y) \<and> (\<forall>y \<in> set post. ?f c \<le> ?f y)"
        using xs R lt pre post False by simp
      then show ?thesis by blast
    qed
  qed
qed

lemma least_associated_first:
  "\<exists>pre c post.
      m # ms = pre @ c # post
    \<and> fst (least_associated E table (m # ms) (m, None)) = c
    \<and> (\<forall>y \<in> set pre. max_association_score E table c < max_association_score E table y)
    \<and> (\<forall>y \<in> set post. max_association_score E table c \<le> max_association_score E table y)"
proof -
  let ?f = "max_association_score E table"
  let ?R = "least_associated E table ms (m, Some (?f m))"
  have start: "least_associated E table (m # ms) (m, None) = ?R"
    by (simp add: Let_def)
  from least_associated_split [OF refl, of E table ms m "?f m"] show ?thesis
  proof (elim disjE exE conjE)
    assume R: "?R = (m, Some (?f m))" and all: "\<forall>y \<in> set ms. ?f m \<le> ?f y"
    have fc: "fst (least_associated E table (m # ms) (m, None)) = m"
      by (simp only: start R fst_conv)
    have "m # ms = [] @ m # ms
          \<and> (\<forall>y \<in> set []. ?f m < ?f y) \<and> (\<forall>y \<in> set ms. ?f m \<le> ?f y)"
      using all by simp
    then show ?thesis using fc by blast
  next
    fix pre c post
    assume xs: "ms = pre @ c # post" and R: "?R = (c, Some (?f c))"
      and lt: "?f c < ?f m"
      and pre: "\<forall>y \<in> set pre. ?f c < ?f y" and post: "\<forall>y \<in> set post. ?f c \<le> ?f y"
    have fc: "fst (least_associated E table (m # ms) (m, None)) = c"
      by (simp only: start R fst_conv)
    have "m # ms = (m # pre) @ c # post
          \<and> (\<forall>y \<in> set (m # pre). ?f c < ?f y) \<and> (\<forall>y \<in> set post. ?f c \<le> ?f y)"
      using xs lt pre post by simp
    then show ?thesis using fc by blast
  qed
qed

lemma three_hypotheses_scores:
  "max_association_score node_engine (words_to_hypotheses_and_scores three_hypotheses_learner) [5]
     = 1 / 4
   \<and> max_association_score node_engine (words_to_hypotheses_and_scores three_hypotheses_learner) [6]
     = 0
   \<and> initialization_step node_engine ''box'' [5, 6] three_hypotheses_learner
       = (Returns (),
          three_hypotheses_learner\<lparr>words_to_hypotheses_and_scores :=
            [(''ball'', [([1, 2, 3, 4], 1 / 2), ([3, 2, 1], 1 / 4), ([5], 1 / 4)]),
             (''box'', [([6], 1 / 2)])]\<rparr>)"
  by code_simp

text \<open>
  Claim C10. Let the scene have at least one candidate object, let \<open>meanings\<close> be the
  candidates' patterns in order, and let the word have no entry in the hypothesis
  table. For a pattern \<open>m\<close> let \<open>S m\<close> be the scores of the hypotheses of the other
  words that are isomorphic to \<open>m\<close>, and \<open>A m\<close> the association score the code
  computes. Then \<open>A m\<close> is 0 when \<open>S m\<close> is empty and the maximum of \<open>S m\<close> when it is
  not and its scores are not negative; and \<open>initialization_step\<close> returns, having
  stored under the word the one-entry dictionary from \<open>chosen\<close> to the learning
  factor, where \<open>chosen\<close> is the first of the meanings whose \<open>A\<close> is least: every
  earlier meaning has a strictly larger \<open>A\<close>, every later one an \<open>A\<close> at least as
  large.
\<close>

theorem initialization_step_least_associated:
  assumes ms: "meanings = map (from_graph E) (get_objects_from_perception E graph)"
    and ne: "meanings \<noteq> []"
    and new: "word \<notin> set (map fst (words_to_hypotheses_and_scores L))"
    and S: "\<And>m. S m = {s. \<exists>w hs h. (w, hs) \<in> set (words_to_hypotheses_and_scores L) \<and> w \<noteq> word
                        \<and> (h, s) \<in> set hs \<and> check_isomorphism E h m}"
    and A: "\<And>m. A m = max_association_score E (words_to_hypotheses_and_scores L) m"
  shows "(\<forall>m. (S m = {} \<longrightarrow> A m = 0)
             \<and> (S m \<noteq> {} \<and> (\<forall>s \<in> S m. 0 \<le> s) \<longrightarrow> A m = Max (S m)))
       \<and> (\<exists>before chosen after.
             meanings = before @ chosen # after
           \<and> (\<forall>m \<in> set before. A chosen < A m)
           \<and> (\<forall>m \<in> set after. A chosen \<le> A m)
           \<and> initialization_step E word graph L
               = (Returns (),
                  L\<lparr>words_to_hypotheses_and_scores :=
                      AList.update word [(chosen, learning_factor L)]
                        (words_to_hypotheses_and_scores L)\<rparr>)
           \<and> map_of (words_to_hypotheses_and_scores (snd (initialization_step E word graph L)))
                word = Some [(chosen, learning_factor L)])"
proof (rule conjI)
  let ?table = "words_to_hypotheses_and_scores L"
  have SS: "S m = set (association_scores E ?table m)" for m
  proof -
    have "w \<noteq> word" if "(w, hs) \<in> set ?table" for w hs
      using new that by force
    then show ?thesis unfolding S set_association_scores by blast
  qed
  have fin: "finite (S m)" for m unfolding SS by simp
  have AM: "A m = Max (insert 0 (S m))" for m
    unfolding A SS by (rule max_association_score_Max)
  show "\<forall>m. (S m = {} \<longrightarrow> A m = 0)
             \<and> (S m \<noteq> {} \<and> (\<forall>s \<in> S m. 0 \<le> s) \<longrightarrow> A m = Max (S m))"
  proof (intro allI conjI impI)
    fix m
    assume "S m = {}"
    then show "A m = 0" by (simp add: AM)
  next
    fix m
    assume a: "S m \<noteq> {} \<and> (\<forall>s \<in> S m. 0 \<le> s)"
    then have "0 \<le> Max (S m)" using fin [of m] by (metis Max_in)
    then show "A m = Max (S m)" using a fin [of m] by (simp add: AM max_def)
  qed
next
  obtain m rest where mr: "meanings = m # rest" using ne by (cases meanings) auto
  obtain pre c post where split: "m # rest = pre @ c # post"
    and c: "fst (least_associated E (words_to_hypotheses_and_scores L) (m # rest) (m, None)) = c"
    and pre: "\<forall>y \<in> set pre. A c < A y" and post: "\<forall>y \<in> set post. A c \<le> A y"
    using least_associated_first [of m rest E "words_to_hypotheses_and_scores L"]
    unfolding A by blast
  have step: "initialization_step E word graph L
               = (Returns (),
                  L\<lparr>words_to_hypotheses_and_scores :=
                      AList.update word [(c, learning_factor L)]
                        (words_to_hypotheses_and_scores L)\<rparr>)"
    using c mr unfolding ms by (simp add: initialization_step_def Let_def)
  have look: "map_of (words_to_hypotheses_and_scores (snd (initialization_step E word graph L)))
                word = Some [(c, learning_factor L)]"
    by (simp add: step update_conv')
  show "\<exists>before chosen after.
             meanings = before @ chosen # after
           \<and> (\<forall>m \<in> set before. A chosen < A m)
           \<and> (\<forall>m \<in> set after. A chosen \<le> A m)
           \<and> initialization_step E word graph L
               = (Returns (),
                  L\<lparr>words_to_hypotheses_and_scores :=
                      AList.update word [(chosen, learning_factor L)]
                        (words_to_hypotheses_and_scores L)\<rparr>)
           \<and> map_of (words_to_hypotheses_and_scores (snd (initialization_step E word graph L)))
                word = Some [(chosen, learning_factor L)]"
    using split pre post step look unfolding mr by (intro exI conjI)
qed

theorem initialization_step_least_associated_witness:
  "map (from_graph node_engine) (get_objects_from_perception node_engine [5, 6]) = [[5], [6]]
   \<and> ''box'' \<notin> set (map fst (words_to_hypotheses_and_scores three_hypotheses_learner))
   \<and> (\<exists>before chosen after.
         [[5], [6]] = before @ chosen # after
       \<and> initialization_step node_engine ''box'' [5, 6] three_hypotheses_learner
           = (Returns (),
              three_hypotheses_learner\<lparr>words_to_hypotheses_and_scores :=
                 AList.update ''box'' [(chosen, learning_factor three_hypotheses_learner)]
                   (words_to_hypotheses_and_scores three_hypotheses_learner)\<rparr>))
   \<and> initialization_step node_engine ''box'' [5, 6] three_hypotheses_learner
       = (Returns (),
          three_hypotheses_learner\<lparr>words_to_hypotheses_and_scores :=
            [(''ball'', [([1, 2, 3, 4], 1 / 2), ([3, 2, 1], 1 / 4), ([5], 1 / 4)]),
             (''box'', [([6], 1 / 2)])]\<rparr>)"
proof -
  have ms: "[[5], [6]] = map (from_graph node_engine) (get_objects_from_perception node_engine [5, 6])"
    by (simp add: node_engine_def)
  have ne: "[[5 :: nat], [6]] \<noteq> []" by simp
  have new: "''box'' \<notin> set (map fst (words_to_hypotheses_and_scores three_hypotheses_learner))"
    by (simp add: three_hypotheses_learner_def)
  have "\<exists>before chosen after.
         [[5], [6]] = before @ chosen # after
       \<and> initialization_step node_engine ''box'' [5, 6] three_hypotheses_learner
           = (Returns (),
              three_hypotheses_learner\<lparr>words_to_hypotheses_and_scores :=
                 AList.update ''box'' [(chosen, learning_factor three_hypotheses_learner)]
                   (words_to_hypotheses_and_scores three_hypotheses_learner)\<rparr>)"
    using initialization_step_least_associated [OF ms ne new refl refl] by blast
  then show ?thesis using ms new three_hypotheses_scores by simp
qed

end

